theory Spec2Isabelle
  imports Complex_Main
begin

section \<open>Numbers and images\<close>

text \<open>
  The source computes in single precision. A finite float is modelled as a real number and
  rounding is not modelled; the outcome of a division whose divisor is zero is modelled
  separately (type \<open>fl\<close> below), because HOL's \<open>x / 0 = 0\<close> is not what the machine does.
\<close>

definition c_int :: "real \<Rightarrow> int" where
  \<comment> \<open>the conversion \<^verbatim>\<open>(int)v\<close>: truncation toward zero\<close>
  "c_int v = (if 0 \<le> v then \<lfloor>v\<rfloor> else \<lceil>v\<rceil>)"

definition fRound :: "real \<Rightarrow> int" where
  \<comment> \<open>\<^verbatim>\<open>return (int)(flt+0.5);\<close>\<close>
  "fRound flt = c_int (flt + 0.5)"

text \<open>
  \<^verbatim>\<open>cv::Mat\<close> of type \<^verbatim>\<open>CV_32F\<close>: its size and its pixels, \<open>elem m i j\<close> being
  \<^verbatim>\<open>*(m.ptr<float>(i)+j)\<close>.
\<close>

record 'a matrix =
  rows :: int
  cols :: int
  elem :: "int \<Rightarrow> int \<Rightarrow> 'a"

type_synonym Mat = "real matrix"

definition zeros :: "int \<Rightarrow> int \<Rightarrow> Mat" where
  "zeros r c = \<lparr>rows = r, cols = c, elem = (\<lambda>i j. 0)\<rparr>"

section \<open>Floats that need not be finite\<close>

text \<open>
  A float is a finite value, an infinity or a NaN. The operations follow IEEE 754 on the
  special values and are exact on finite ones (rounding and overflow are added by
  \<open>rounded\<close> below); the sign of zero is not modelled, a zero divisor counting as \<open>+0\<close>.
\<close>

datatype fl = Fin real | PInf | NInf | NaN

fun fl_add :: "fl \<Rightarrow> fl \<Rightarrow> fl" where
  "fl_add NaN b = NaN"
| "fl_add a NaN = NaN"
| "fl_add PInf NInf = NaN"
| "fl_add NInf PInf = NaN"
| "fl_add PInf b = PInf"
| "fl_add a PInf = PInf"
| "fl_add NInf b = NInf"
| "fl_add a NInf = NInf"
| "fl_add (Fin a) (Fin b) = Fin (a + b)"

fun fl_neg :: "fl \<Rightarrow> fl" where
  "fl_neg NaN = NaN"
| "fl_neg PInf = NInf"
| "fl_neg NInf = PInf"
| "fl_neg (Fin a) = Fin (- a)"

definition fl_sub :: "fl \<Rightarrow> fl \<Rightarrow> fl" where
  "fl_sub a b = fl_add a (fl_neg b)"

definition fl_inf :: "bool \<Rightarrow> fl" where
  \<comment> \<open>the infinity of the given sign (\<open>True\<close>: positive)\<close>
  "fl_inf pos = (if pos then PInf else NInf)"

fun fl_mul :: "fl \<Rightarrow> fl \<Rightarrow> fl" where
  "fl_mul NaN b = NaN"
| "fl_mul a NaN = NaN"
| "fl_mul (Fin a) (Fin b) = Fin (a * b)"
| "fl_mul (Fin a) PInf = (if a = 0 then NaN else fl_inf (0 < a))"
| "fl_mul (Fin a) NInf = (if a = 0 then NaN else fl_inf (a < 0))"
| "fl_mul PInf (Fin b) = (if b = 0 then NaN else fl_inf (0 < b))"
| "fl_mul NInf (Fin b) = (if b = 0 then NaN else fl_inf (b < 0))"
| "fl_mul PInf PInf = PInf"
| "fl_mul NInf NInf = PInf"
| "fl_mul PInf NInf = NInf"
| "fl_mul NInf PInf = NInf"

fun fl_div :: "fl \<Rightarrow> fl \<Rightarrow> fl" where
  "fl_div NaN b = NaN"
| "fl_div a NaN = NaN"
| "fl_div (Fin a) (Fin b) =
     (if b = 0 then (if a = 0 then NaN else fl_inf (0 < a)) else Fin (a / b))"
| "fl_div (Fin a) PInf = Fin 0"
| "fl_div (Fin a) NInf = Fin 0"
| "fl_div PInf (Fin b) = fl_inf (0 \<le> b)"
| "fl_div NInf (Fin b) = fl_inf (b < 0)"
| "fl_div PInf PInf = NaN"
| "fl_div PInf NInf = NaN"
| "fl_div NInf PInf = NaN"
| "fl_div NInf NInf = NaN"

fun fl_sqrt :: "fl \<Rightarrow> fl" where
  "fl_sqrt NaN = NaN"
| "fl_sqrt PInf = PInf"
| "fl_sqrt NInf = NaN"
| "fl_sqrt (Fin a) = (if a < 0 then NaN else Fin (sqrt a))"

fun fl_atan :: "fl \<Rightarrow> fl" where
  "fl_atan NaN = NaN"
| "fl_atan PInf = Fin (pi / 2)"
| "fl_atan NInf = Fin (- (pi / 2))"
| "fl_atan (Fin a) = Fin (arctan a)"

fun fl_less :: "fl \<Rightarrow> fl \<Rightarrow> bool" where
  \<comment> \<open>\<^verbatim>\<open>a < b\<close>: false as soon as an operand is a NaN\<close>
  "fl_less NaN b = False"
| "fl_less a NaN = False"
| "fl_less (Fin a) (Fin b) = (a < b)"
| "fl_less a PInf = (a \<noteq> PInf)"
| "fl_less NInf b = (b \<noteq> NInf)"
| "fl_less PInf b = False"
| "fl_less a NInf = False"

fun fl_le :: "fl \<Rightarrow> fl \<Rightarrow> bool" where
  \<comment> \<open>\<^verbatim>\<open>a <= b\<close>: false as soon as an operand is a NaN\<close>
  "fl_le NaN b = False"
| "fl_le a NaN = False"
| "fl_le (Fin a) (Fin b) = (a \<le> b)"
| "fl_le a PInf = True"
| "fl_le NInf b = True"
| "fl_le PInf b = False"
| "fl_le a NInf = False"

fun fl_exp :: "fl \<Rightarrow> fl" where
  "fl_exp NaN = NaN"
| "fl_exp PInf = PInf"
| "fl_exp NInf = Fin 0"
| "fl_exp (Fin a) = Fin (exp a)"

fun fl_abs :: "fl \<Rightarrow> fl" where
  "fl_abs NaN = NaN"
| "fl_abs PInf = PInf"
| "fl_abs NInf = PInf"
| "fl_abs (Fin a) = Fin \<bar>a\<bar>"

definition fRound_of :: "fl \<Rightarrow> int" where
  \<comment> \<open>\<^verbatim>\<open>fRound\<close> of a float that need not be finite: the conversion of an infinity or of a
      NaN to \<^verbatim>\<open>int\<close> is undefined in C++; the model takes \<^verbatim>\<open>INT_MIN\<close>, as x86 does\<close>
  "fRound_of v = (case v of Fin x \<Rightarrow> fRound x | _ \<Rightarrow> - (2 ^ 31))"

text \<open>
  Where a claim depends on the rounding and on the range of single precision, the arithmetic
  is a parameter: \<open>rnd\<close> sends the exact result of an operation to the float that the
  operation returns (an infinity once the float range is left), and \<open>pow2 x\<close> is
  \<^verbatim>\<open>pow((float)2.0, x)\<close>, a function of the C library.
\<close>

record float_arith =
  rnd :: "real \<Rightarrow> fl"
  pow2 :: "fl \<Rightarrow> fl"

definition rounded :: "float_arith \<Rightarrow> fl \<Rightarrow> fl" where
  \<comment> \<open>an exact result, stored in a float\<close>
  "rounded fa v = (case v of Fin x \<Rightarrow> rnd fa x | _ \<Rightarrow> v)"

definition f_int :: "float_arith \<Rightarrow> int \<Rightarrow> fl" where
  \<comment> \<open>\<^verbatim>\<open>(float)k\<close>\<close>
  "f_int fa k = rnd fa (real_of_int k)"

definition f_add :: "float_arith \<Rightarrow> fl \<Rightarrow> fl \<Rightarrow> fl" where
  "f_add fa a b = rounded fa (fl_add a b)"

definition f_mul :: "float_arith \<Rightarrow> fl \<Rightarrow> fl \<Rightarrow> fl" where
  "f_mul fa a b = rounded fa (fl_mul a b)"

definition f_div :: "float_arith \<Rightarrow> fl \<Rightarrow> fl \<Rightarrow> fl" where
  "f_div fa a b = rounded fa (fl_div a b)"

text \<open>The options read by the functions modelled here (declared in \<^verbatim>\<open>kaze_config.h\<close>).\<close>

record KAZEOptions =
  omax :: int
  nsublevels :: int
  img_width :: int
  img_height :: int
  soffset :: real
  dthreshold :: real
  descriptor :: int

record tevolution =
  Lx :: Mat
  Ly :: Mat
  Lxx :: Mat
  Lxy :: Mat
  Lyy :: Mat
  Lflow :: Mat
  Lt :: Mat
  Lsmooth :: Mat
  Lstep :: Mat
  Ldet :: Mat
  esigma :: fl
  etime :: fl
  sigma_size :: int
  octave :: int
  sublevel :: int

section \<open>Allocation of the evolution levels\<close>

text \<open>
  Lines 1869 to 1871 compute \<^verbatim>\<open>esigma\<close>, \<^verbatim>\<open>etime\<close> and \<^verbatim>\<open>sigma_size\<close> in single precision:
  \<^verbatim>\<open>options.soffset*pow((float)2.0,(float)(j)/(float)(options.nsublevels) + i)\<close>, then
  \<^verbatim>\<open>0.5*(aux.esigma*aux.esigma)\<close> (the product of two floats, halved in double precision and
  stored in a float) and \<^verbatim>\<open>fRound(aux.esigma)\<close>.
\<close>

definition new_level :: "float_arith \<Rightarrow> KAZEOptions \<Rightarrow> int \<Rightarrow> int \<Rightarrow> tevolution" where
  \<comment> \<open>the body of the inner loop of \<^verbatim>\<open>KAZE::Allocate_Memory_Evolution\<close>\<close>
  "new_level fa opt i j =
     (let z = zeros (img_height opt) (img_width opt);
          es = f_mul fa (Fin (soffset opt))
                 (pow2 fa (f_add fa (f_div fa (f_int fa j) (f_int fa (nsublevels opt)))
                                    (f_int fa i)));
          et = rounded fa (fl_mul (Fin 0.5) (f_mul fa es es))
      in \<lparr>Lx = z, Ly = z, Lxx = z, Lxy = z, Lyy = z, Lflow = z, Lt = z, Lsmooth = z,
          Lstep = z, Ldet = z,
          esigma = es, etime = et, sigma_size = fRound_of es,
          octave = i, sublevel = j\<rparr>)"

definition Allocate_Memory_Evolution :: "float_arith \<Rightarrow> KAZEOptions \<Rightarrow> tevolution list" where
  \<comment> \<open>outer loop \<^verbatim>\<open>i = 0 .. omax-1\<close>, inner loop \<^verbatim>\<open>j = 0 .. nsublevels-1\<close>, \<^verbatim>\<open>push_back\<close>\<close>
  "Allocate_Memory_Evolution fa opt =
     fold (\<lambda>i ev. fold (\<lambda>j ev. ev @ [new_level fa opt i j]) [0 .. nsublevels opt - 1] ev)
       [0 .. omax opt - 1] []"


section \<open>Extremum detection\<close>

text \<open>
  \<^verbatim>\<open>cv::KeyPoint\<close>. The field \<^verbatim>\<open>size\<close> is \<open>size_kp\<close> and \<^verbatim>\<open>octave\<close> is \<open>octave_kp\<close> here;
  the size is copied from \<^verbatim>\<open>esigma\<close> and need not be finite.
\<close>

record KeyPoint =
  pt_x :: real
  pt_y :: real
  size_kp :: fl
  angle :: real
  response :: real
  octave_kp :: int
  class_id :: int

text \<open>
  \<^verbatim>\<open>Check_Maximum_Neighbourhood(img, dsize, value, row, col, same_img)\<close> is called by the
  detector but defined outside the file; the detector takes it as the parameter \<open>cmn\<close>.
  \<^verbatim>\<open>DEFAULT_MIN_DETECTOR_THRESHOLD\<close> (a macro of \<^verbatim>\<open>kaze_config.h\<close>) is the parameter
  \<open>dmin\<close>.
\<close>

type_synonym check_max = "Mat \<Rightarrow> int \<Rightarrow> real \<Rightarrow> int \<Rightarrow> int \<Rightarrow> bool \<Rightarrow> bool"

definition level_at :: "tevolution list \<Rightarrow> int \<Rightarrow> tevolution" where
  \<comment> \<open>\<^verbatim>\<open>evolution[level]\<close>\<close>
  "level_at ev level = ev ! nat level"

definition is_extremum_at ::
  "check_max \<Rightarrow> real \<Rightarrow> KAZEOptions \<Rightarrow> tevolution list \<Rightarrow> int \<Rightarrow> int \<Rightarrow> int \<Rightarrow> bool" where
  \<comment> \<open>the value of \<^verbatim>\<open>is_extremum\<close> after the nested tests of \<^verbatim>\<open>Find_Extremum_Threading\<close>\<close>
  "is_extremum_at cmn dmin opt ev level ix jx =
     (let value = elem (Ldet (level_at ev level)) ix jx in
      if value > dthreshold opt \<and> value \<ge> dmin then
        if value \<ge> elem (Ldet (level_at ev level)) ix (jx - 1) then
          if cmn (Ldet (level_at ev level)) 1 value ix jx True then
            if cmn (Ldet (level_at ev (level - 1))) 1 value ix jx False then
              if cmn (Ldet (level_at ev (level + 1))) 1 value ix jx False then True
              else False
            else False
          else False
        else False
      else False)"

definition accepted ::
  "check_max \<Rightarrow> real \<Rightarrow> KAZEOptions \<Rightarrow> tevolution list \<Rightarrow> int \<Rightarrow> int \<Rightarrow> int \<Rightarrow> bool" where
  \<comment> \<open>the acceptance test in words: both thresholds, the left neighbour (not strictly),
      then the three neighbourhood checks\<close>
  "accepted cmn dmin opt ev level ix jx =
     (let v = elem (Ldet (level_at ev level)) ix jx in
        v > dthreshold opt \<and> v \<ge> dmin
      \<and> v \<ge> elem (Ldet (level_at ev level)) ix (jx - 1)
      \<and> cmn (Ldet (level_at ev level)) 1 v ix jx True
      \<and> cmn (Ldet (level_at ev (level - 1))) 1 v ix jx False
      \<and> cmn (Ldet (level_at ev (level + 1))) 1 v ix jx False)"

definition new_point :: "tevolution list \<Rightarrow> int \<Rightarrow> int \<Rightarrow> int \<Rightarrow> KeyPoint" where
  \<comment> \<open>the keypoint built under \<^verbatim>\<open>// Add the point of interest!!\<close>\<close>
  "new_point ev level ix jx =
     \<lparr>pt_x = real_of_int jx, pt_y = real_of_int ix,
      size_kp = esigma (level_at ev level),
      angle = real_of_int (sublevel (level_at ev level)),
      response = \<bar>elem (Ldet (level_at ev level)) ix jx\<bar>,
      octave_kp = octave (level_at ev level),
      class_id = level\<rparr>"

definition Find_Extremum_Threading ::
  "check_max \<Rightarrow> real \<Rightarrow> KAZEOptions \<Rightarrow> tevolution list \<Rightarrow> int \<Rightarrow> KeyPoint list list
     \<Rightarrow> KeyPoint list list" where
  \<comment> \<open>rows \<^verbatim>\<open>ix = 1 .. img_height-2\<close>, columns \<^verbatim>\<open>jx = 1 .. img_width-2\<close>;
      an extremum is appended to \<^verbatim>\<open>kpts_par[level-1]\<close>\<close>
  "Find_Extremum_Threading cmn dmin opt ev level kpts_par =
     fold (\<lambda>ix kp.
       fold (\<lambda>jx kp.
         if is_extremum_at cmn dmin opt ev level ix jx
         then kp[nat (level - 1) := kp ! nat (level - 1) @ [new_point ev level ix jx]]
         else kp)
       [1 .. img_width opt - 2] kp)
     [1 .. img_height opt - 2] kpts_par"

text \<open>A keypoint as the detector emits it: built at a pixel that passed the tests.\<close>

definition emitted :: "check_max \<Rightarrow> real \<Rightarrow> KAZEOptions \<Rightarrow> tevolution list \<Rightarrow> KeyPoint \<Rightarrow> bool" where
  "emitted cmn dmin opt ev k =
     (\<exists>level ix jx. k = new_point ev level ix jx \<and> is_extremum_at cmn dmin opt ev level ix jx)"

section \<open>Cross-level selection of the keypoints\<close>

record scan_state =
  is_extremum :: bool
  is_repeated :: bool
  id_repeated :: nat

definition near_level :: "KeyPoint \<Rightarrow> int \<Rightarrow> bool" where
  \<comment> \<open>\<^verbatim>\<open>class_id == level || class_id == level+1 || class_id == level-1\<close>; the level is an
      \<^verbatim>\<open>unsigned int\<close> below \<open>2^31\<close>, so the conversion of \<^verbatim>\<open>class_id\<close> changes nothing\<close>
  "near_level k level =
     (class_id k = level \<or> class_id k = level + 1 \<or> class_id k = level - 1)"

definition dist2 :: "KeyPoint \<Rightarrow> KeyPoint \<Rightarrow> real" where
  \<comment> \<open>\<^verbatim>\<open>pow(a.pt.x-b.pt.x,2)+pow(a.pt.y-b.pt.y,2)\<close>\<close>
  "dist2 a b = (pt_x a - pt_x b)\<^sup>2 + (pt_y a - pt_y b)\<^sup>2"

function scan_kpts ::
  "tevolution list \<Rightarrow> int \<Rightarrow> KeyPoint \<Rightarrow> KeyPoint list \<Rightarrow> nat \<Rightarrow> scan_state \<Rightarrow> scan_state" where
  \<comment> \<open>the loop over \<^verbatim>\<open>ik\<close> of \<^verbatim>\<open>Determinant_Hessian_Parallel\<close>, with its \<^verbatim>\<open>break\<close>\<close>
  "scan_kpts ev level cand kpts ik st =
     (if ik < length kpts then
        if near_level (kpts ! ik) level then
          if dist2 cand (kpts ! ik)
               < real_of_int (sigma_size (level_at ev level) * sigma_size (level_at ev level))
          then
            if response cand > response (kpts ! ik)
            then st\<lparr>id_repeated := ik, is_repeated := True\<rparr>
            else st\<lparr>is_extremum := False\<rparr>
          else scan_kpts ev level cand kpts (ik + 1) st
        else scan_kpts ev level cand kpts (ik + 1) st
      else st)"
  by pat_completeness auto
termination
  by (relation "measure (\<lambda>(ev, level, cand, kpts, ik, st). length kpts - ik)") auto

declare scan_kpts.simps [simp del]

definition merge_candidate ::
  "tevolution list \<Rightarrow> int \<Rightarrow> KeyPoint \<Rightarrow> KeyPoint list \<Rightarrow> KeyPoint list" where
  \<comment> \<open>the body of the loop over \<^verbatim>\<open>j\<close>: \<^verbatim>\<open>is_out\<close> is set to \<^verbatim>\<open>false\<close> after the border
      test, so that test has no effect\<close>
  "merge_candidate ev level cand kpts =
     (let st = scan_kpts ev level cand kpts 0
                 \<lparr>is_extremum = True, is_repeated = False, id_repeated = 0\<rparr>
      in if is_extremum st then
           if \<not> is_repeated st then kpts @ [cand] else kpts[id_repeated st := cand]
         else kpts)"

definition merge_levels ::
  "tevolution list \<Rightarrow> KeyPoint list list \<Rightarrow> KeyPoint list \<Rightarrow> KeyPoint list" where
  \<comment> \<open>\<^verbatim>\<open>// Now fill the vector of keypoints!!!\<close>: \<^verbatim>\<open>i\<close> over \<^verbatim>\<open>kpts_par\<close>, \<^verbatim>\<open>j\<close> over
      \<^verbatim>\<open>kpts_par[i]\<close>, \<^verbatim>\<open>level = i+1\<close>\<close>
  "merge_levels ev kpts_par kpts =
     fold (\<lambda>i kpts.
       fold (\<lambda>j kpts. merge_candidate ev (int i + 1) (kpts_par ! i ! j) kpts)
         [0 ..< length (kpts_par ! i)] kpts)
     [0 ..< length kpts_par] kpts"

definition find_candidates ::
  "check_max \<Rightarrow> real \<Rightarrow> KAZEOptions \<Rightarrow> tevolution list \<Rightarrow> KeyPoint list list" where
  \<comment> \<open>the first half of \<^verbatim>\<open>Determinant_Hessian_Parallel\<close>: \<^verbatim>\<open>kpts_par\<close> gets one empty vector
      for each level \<^verbatim>\<open>1 .. evolution.size()-2\<close>, then \<^verbatim>\<open>Find_Extremum_Threading(i)\<close> runs
      for each of these levels\<close>
  "find_candidates cmn dmin opt ev =
     (let kpts_par0 = fold (\<lambda>i kp. kp @ [[]]) [1 ..< length ev - 1] []
      in fold (\<lambda>i kp. Find_Extremum_Threading cmn dmin opt ev (int i) kp)
           [1 ..< length ev - 1] kpts_par0)"

definition Determinant_Hessian_Parallel ::
  "check_max \<Rightarrow> real \<Rightarrow> KAZEOptions \<Rightarrow> tevolution list \<Rightarrow> KeyPoint list
     \<Rightarrow> KeyPoint list option" where
  \<comment> \<open>The loop bounds are \<^verbatim>\<open>unsigned\<close>: with no level at all, \<^verbatim>\<open>evolution.size()-1\<close> wraps
      around and the allocation loop does not end normally (\<open>None\<close>).\<close>
  "Determinant_Hessian_Parallel cmn dmin opt ev kpts =
     (if ev = [] then None
      else
        Some (merge_levels ev (find_candidates cmn dmin opt ev) kpts))"


text \<open>
  The selection as the specification words it: the first accepted keypoint in conflict with
  the candidate decides; the candidate replaces it when its response is strictly larger and is
  dropped otherwise; with no conflict the candidate is appended.
\<close>

primrec first_index :: "('a \<Rightarrow> bool) \<Rightarrow> 'a list \<Rightarrow> nat option" where
  "first_index P [] = None"
| "first_index P (x # xs) = (if P x then Some 0 else map_option Suc (first_index P xs))"

definition in_conflict :: "tevolution list \<Rightarrow> int \<Rightarrow> KeyPoint \<Rightarrow> KeyPoint \<Rightarrow> bool" where
  "in_conflict ev level cand k =
     (\<bar>class_id k - level\<bar> \<le> 1 \<and> dist2 cand k < (real_of_int (sigma_size (level_at ev level)))\<^sup>2)"

definition dedup_spec ::
  "tevolution list \<Rightarrow> int \<Rightarrow> KeyPoint \<Rightarrow> KeyPoint list \<Rightarrow> KeyPoint list" where
  "dedup_spec ev level cand kpts =
     (case first_index (in_conflict ev level cand) kpts of
        None \<Rightarrow> kpts @ [cand]
      | Some i \<Rightarrow> if response cand > response (kpts ! i) then kpts[i := cand] else kpts)"

definition level_order :: "KeyPoint list list \<Rightarrow> (int \<times> KeyPoint) list" where
  \<comment> \<open>the candidates of \<^verbatim>\<open>kpts_par\<close> in level order, each with its level\<close>
  "level_order kpts_par =
     concat (map (\<lambda>i. map (\<lambda>c. (int i + 1, c)) (kpts_par ! i)) [0 ..< length kpts_par])"

section \<open>Sub-pixel refinement\<close>

type_synonym vec3 = "real \<times> real \<times> real"
type_synonym mat3 = "vec3 \<times> vec3 \<times> vec3"

text \<open>
  \<^verbatim>\<open>cv::solve(A, b, dst, cv::DECOMP_LU)\<close> is not in the file. It writes its answer into
  \<^verbatim>\<open>dst\<close>, a matrix that \<^verbatim>\<open>Do_Subpixel_Refinement\<close> allocates once, before its loop (line 2308),
  and it tells through its result whether the system could be solved; line 2366 drops that
  result. The refinement takes the solver as the parameter \<open>solve\<close>: from \<open>A\<close> (by rows),
  \<open>b\<close> and the content of \<^verbatim>\<open>dst\<close> before the call to the content of \<^verbatim>\<open>dst\<close> after it.
\<close>

type_synonym solver = "mat3 \<Rightarrow> vec3 \<Rightarrow> vec3 \<Rightarrow> vec3"

definition subpixel_system :: "tevolution list \<Rightarrow> KeyPoint \<Rightarrow> mat3 \<times> vec3" where
  \<comment> \<open>the first half of the body of the loop of \<^verbatim>\<open>Do_Subpixel_Refinement\<close>: the differences
      \<^verbatim>\<open>Dx .. Dys\<close> of \<^verbatim>\<open>Ldet\<close> around the keypoint, then the matrix \<^verbatim>\<open>A\<close> (by rows) and the
      vector \<^verbatim>\<open>b\<close>\<close>
  "subpixel_system ev k =
     (let x = c_int (pt_x k); y = c_int (pt_y k); step = (1::int);
          L = elem (Ldet (level_at ev (class_id k)));
          Lp = elem (Ldet (level_at ev (class_id k + 1)));
          Lm = elem (Ldet (level_at ev (class_id k - 1)));
          Dx = (1 / (2 * real_of_int step)) * (L y (x + step) - L y (x - step));
          Dy = (1 / (2 * real_of_int step)) * (L (y + step) x - L (y - step) x);
          Ds = 0.5 * (Lp y x - Lm y x);
          Dxx = (1 / real_of_int (step * step)) * (L y (x + step) + L y (x - step) - 2 * L y x);
          Dyy = (1 / real_of_int (step * step)) * (L (y + step) x + L (y - step) x - 2 * L y x);
          Dss = Lp y x + Lm y x - 2 * L y x;
          Dxy = (1 / (4 * real_of_int step)) * (L (y + step) (x + step) + L (y - step) (x - step))
              - (1 / (4 * real_of_int step)) * (L (y - step) (x + step) + L (y + step) (x - step));
          Dxs = (1 / (4 * real_of_int step)) * (Lp y (x + step) + Lm y (x - step))
              - (1 / (4 * real_of_int step)) * (Lp y (x - step) + Lm y (x + step));
          Dys = (1 / (4 * real_of_int step)) * (Lp (y + step) x + Lm (y - step) x)
              - (1 / (4 * real_of_int step)) * (Lp (y - step) x + Lm (y + step) x)
      in (((Dxx, Dxy, Dxs), (Dxy, Dyy, Dys), (Dxs, Dys, Dss)), (- Dx, - Dy, - Ds)))"

definition refine_point ::
  "solver \<Rightarrow> KAZEOptions \<Rightarrow> tevolution list \<Rightarrow> vec3 \<Rightarrow> KeyPoint \<Rightarrow> vec3 \<times> KeyPoint option" where
  \<comment> \<open>the second half of the body of the loop of \<^verbatim>\<open>Do_Subpixel_Refinement\<close>, from the call
      of \<^verbatim>\<open>cv::solve\<close> on: the new content of \<^verbatim>\<open>dst\<close>, and \<open>Some\<close> the updated keypoint or
      \<open>None\<close> when the keypoint is erased\<close>
  "refine_point solve opt ev dst0 k =
     (let dst = solve (fst (subpixel_system ev k)) (snd (subpixel_system ev k)) dst0
      in (dst,
          if \<bar>fst dst\<bar> \<le> 1 \<and> \<bar>fst (snd dst)\<bar> \<le> 1 \<and> \<bar>snd (snd dst)\<bar> \<le> 1 then
            let dsc = real_of_int (octave_kp k)
                       + (angle k + snd (snd dst)) / real_of_int (nsublevels opt)
            in Some (k\<lparr>pt_x := pt_x k + fst dst, pt_y := pt_y k + fst (snd dst),
                       size_kp := Fin (2 * soffset opt * 2 powr dsc), angle := 0\<rparr>)
          else None))"

definition erase :: "'a list \<Rightarrow> nat \<Rightarrow> 'a list" where
  \<comment> \<open>\<^verbatim>\<open>kpts.erase(kpts.begin()+i)\<close>\<close>
  "erase xs i = take i xs @ drop (i + 1) xs"

function refine_loop ::
  "solver \<Rightarrow> KAZEOptions \<Rightarrow> tevolution list \<Rightarrow> nat \<Rightarrow> vec3 \<Rightarrow> KeyPoint list \<Rightarrow> KeyPoint list" where
  \<comment> \<open>\<^verbatim>\<open>for (i = 0; i < kpts.size(); i++)\<close>, on the index, \<^verbatim>\<open>dst\<close> and the vector; after an
      erasure \<^verbatim>\<open>i--\<close> and then \<^verbatim>\<open>i++\<close> leave the (unsigned) index where it was\<close>
  "refine_loop solve opt ev i dst kpts =
     (if i < length kpts then
        case refine_point solve opt ev dst (kpts ! i) of
          (dst', Some k) \<Rightarrow> refine_loop solve opt ev (i + 1) dst' (kpts[i := k])
        | (dst', None) \<Rightarrow> refine_loop solve opt ev i dst' (erase kpts i)
      else kpts)"
  by pat_completeness auto
termination
  by (relation "measure (\<lambda>(solve, opt, ev, i, dst, kpts). length kpts - i)")
     (auto simp: erase_def)

declare refine_loop.simps [simp del]

definition Do_Subpixel_Refinement ::
  "solver \<Rightarrow> KAZEOptions \<Rightarrow> tevolution list \<Rightarrow> KeyPoint list \<Rightarrow> KeyPoint list" where
  \<comment> \<open>\<^verbatim>\<open>cv::Mat dst = cv::Mat::zeros(3,1,CV_32F);\<close> and the loop\<close>
  "Do_Subpixel_Refinement solve opt ev kpts = refine_loop solve opt ev 0 (0, 0, 0) kpts"

definition Feature_Detection ::
  "check_max \<Rightarrow> real \<Rightarrow> solver \<Rightarrow> KAZEOptions \<Rightarrow> tevolution list \<Rightarrow> KeyPoint list
     \<Rightarrow> KeyPoint list option" where
  \<comment> \<open>\<open>ev\<close> is the evolution as \<^verbatim>\<open>Compute_Detector_Response()\<close> leaves it (its Scharr
      derivatives are computed outside the file)\<close>
  "Feature_Detection cmn dmin solve opt ev kpts =
     (case Determinant_Hessian_Parallel cmn dmin opt ev kpts of
        None \<Rightarrow> None
      | Some kpts1 \<Rightarrow> Some (Do_Subpixel_Refinement solve opt ev kpts1))"

text \<open>
  The refinement as the specification words it: gradient and Hessian of the response
  \<open>f x y s\<close> by central differences with unit step, the scale direction being the level; then
  what becomes of a keypoint for a given \<open>\<delta>\<close>.
\<close>

definition response_volume :: "tevolution list \<Rightarrow> int \<Rightarrow> int \<Rightarrow> int \<Rightarrow> real" where
  "response_volume ev x y s = elem (Ldet (level_at ev s)) y x"

definition central_gradient :: "(int \<Rightarrow> int \<Rightarrow> int \<Rightarrow> real) \<Rightarrow> int \<Rightarrow> int \<Rightarrow> int \<Rightarrow> vec3" where
  "central_gradient f x y s =
     ((f (x + 1) y s - f (x - 1) y s) / 2,
      (f x (y + 1) s - f x (y - 1) s) / 2,
      (f x y (s + 1) - f x y (s - 1)) / 2)"

definition central_hessian :: "(int \<Rightarrow> int \<Rightarrow> int \<Rightarrow> real) \<Rightarrow> int \<Rightarrow> int \<Rightarrow> int \<Rightarrow> mat3" where
  "central_hessian f x y s =
     (let hxx = f (x + 1) y s + f (x - 1) y s - 2 * f x y s;
          hyy = f x (y + 1) s + f x (y - 1) s - 2 * f x y s;
          hss = f x y (s + 1) + f x y (s - 1) - 2 * f x y s;
          hxy = (f (x + 1) (y + 1) s + f (x - 1) (y - 1) s
                 - f (x + 1) (y - 1) s - f (x - 1) (y + 1) s) / 4;
          hxs = (f (x + 1) y (s + 1) + f (x - 1) y (s - 1)
                 - f (x - 1) y (s + 1) - f (x + 1) y (s - 1)) / 4;
          hys = (f x (y + 1) (s + 1) + f x (y - 1) (s - 1)
                 - f x (y - 1) (s + 1) - f x (y + 1) (s - 1)) / 4
      in ((hxx, hxy, hxs), (hxy, hyy, hys), (hxs, hys, hss)))"

definition refine_spec :: "KAZEOptions \<Rightarrow> KeyPoint \<Rightarrow> vec3 \<Rightarrow> KeyPoint option" where
  "refine_spec opt k delta = (case delta of (dx, dy, ds) \<Rightarrow>
     if max \<bar>dx\<bar> (max \<bar>dy\<bar> \<bar>ds\<bar>) \<le> 1 then
       Some \<lparr>pt_x = pt_x k + dx, pt_y = pt_y k + dy,
             size_kp = Fin (2 * soffset opt
               * 2 powr (real_of_int (octave_kp k) + (angle k + ds) / real_of_int (nsublevels opt))),
             angle = 0, response = response k, octave_kp = octave_kp k,
             class_id = class_id k\<rparr>
     else None)"

primrec refine_all ::
  "solver \<Rightarrow> KAZEOptions \<Rightarrow> tevolution list \<Rightarrow> vec3 \<Rightarrow> KeyPoint list \<Rightarrow> KeyPoint list" where
  \<comment> \<open>the keypoints in turn, each with the content of \<^verbatim>\<open>dst\<close> left by the one before\<close>
  "refine_all solve opt ev dst [] = []"
| "refine_all solve opt ev dst (k # ks) =
     (let dst' = solve (central_hessian (response_volume ev) (c_int (pt_x k)) (c_int (pt_y k))
                          (class_id k))
                   (case central_gradient (response_volume ev) (c_int (pt_x k)) (c_int (pt_y k))
                           (class_id k)
                    of (gx, gy, gs) \<Rightarrow> (- gx, - gy, - gs))
                   dst
      in (case refine_spec opt k dst' of Some k' \<Rightarrow> [k'] | None \<Rightarrow> [])
         @ refine_all solve opt ev dst' ks)"

definition mat3_apply :: "mat3 \<Rightarrow> vec3 \<Rightarrow> vec3" where
  \<comment> \<open>the product \<open>A \<cdot> v\<close>\<close>
  "mat3_apply A v = (case (A, v) of (((a, b, c), (d, e, f), (g, h, i)), (p, q, r)) \<Rightarrow>
     (a * p + b * q + c * r, d * p + e * q + f * r, g * p + h * q + i * r))"

text \<open>
  Modelled from the spec: \<^verbatim>\<open>Check_Maximum_Neighbourhood\<close>, which the file calls and does not
  define. The specification asks the value to be the maximum of the \<open>3\<times>3\<close> neighbourhood
  (of half-width \<open>dsize\<close>): no pixel of the neighbourhood is larger. On the keypoint's own
  level the centre is the value itself, so \<open>same_img\<close> makes no difference.
\<close>

definition Check_Maximum_Neighbourhood :: check_max where
  "Check_Maximum_Neighbourhood img dsize value row col same_img =
     list_all (\<lambda>i. list_all (\<lambda>j. elem img i j \<le> value) [col - dsize .. col + dsize])
       [row - dsize .. row + dsize]"

text \<open>
  Modelled from the spec: the solver \<^verbatim>\<open>cv::solve\<close> of \<open>H \<cdot> \<delta> = - g\<close>, which the file calls
  and does not define. Over the reals a regular system has one solution, written here by
  Cramer's rule. A singular system has no solution to return: the solver then reports the
  failure through its result and leaves \<^verbatim>\<open>dst\<close> as it found it.
\<close>

definition det3 :: "mat3 \<Rightarrow> real" where
  "det3 A =
     (case A of ((a, b, c), (d, e, f), (g, h, i)) \<Rightarrow>
        a * (e * i - f * h) - b * (d * i - f * g) + c * (d * h - e * g))"

definition solve_LU :: solver where
  "solve_LU A v dst =
     (case (A, v) of (((a, b, c), (d, e, f), (g, h, i)), (p, q, r)) \<Rightarrow>
        let dt = det3 A in
        if dt = 0 then dst
        else (det3 ((p, b, c), (q, e, f), (r, h, i)) / dt,
              det3 ((a, p, c), (d, q, f), (g, r, i)) / dt,
              det3 ((a, b, p), (d, e, q), (g, h, r)) / dt))"

section \<open>The AOS diffusion step\<close>

definition set_elem :: "Mat \<Rightarrow> int \<Rightarrow> int \<Rightarrow> real \<Rightarrow> Mat" where
  \<comment> \<open>\<^verbatim>\<open>*(m.ptr<float>(i)+j) = v\<close>\<close>
  "set_elem m i j v = m\<lparr>elem := (elem m)(i := (elem m i)(j := v))\<rparr>"

definition mat_map :: "(real \<Rightarrow> real) \<Rightarrow> Mat \<Rightarrow> Mat" where
  \<comment> \<open>a matrix expression applied to every entry, such as \<^verbatim>\<open>1.0 + stepsize*py\<close>\<close>
  "mat_map f m = m\<lparr>elem := (\<lambda>i j. f (elem m i j))\<rparr>"

definition mat_add :: "Mat \<Rightarrow> Mat \<Rightarrow> Mat" where
  "mat_add a b = a\<lparr>elem := (\<lambda>i j. elem a i j + elem b i j)\<rparr>"

definition mat_t :: "Mat \<Rightarrow> Mat" where
  \<comment> \<open>\<^verbatim>\<open>m.t()\<close>\<close>
  "mat_t m = \<lparr>rows = cols m, cols = rows m, elem = (\<lambda>i j. elem m j i)\<rparr>"

definition forward_step :: "Mat \<Rightarrow> Mat \<Rightarrow> Mat \<Rightarrow> int \<Rightarrow> Mat \<times> Mat \<times> Mat \<Rightarrow> Mat \<times> Mat \<times> Mat" where
  \<comment> \<open>the body of the loop over \<^verbatim>\<open>k\<close> of \<^verbatim>\<open>KAZE::Thomas\<close>, on \<open>(l, m, y)\<close>\<close>
  "forward_step a b Ld k s = (case s of (l, m, y) \<Rightarrow>
     let l = fold (\<lambda>j l. set_elem l (k - 1) j (elem b (k - 1) j / elem m (k - 1) j))
               [0 .. cols l - 1] l;
         m = fold (\<lambda>j m. set_elem m k j (elem a k j - elem l (k - 1) j * elem b (k - 1) j))
               [0 .. cols m - 1] m;
         y = fold (\<lambda>j y. set_elem y k j (elem Ld k j - elem l (k - 1) j * elem y (k - 1) j))
               [0 .. cols y - 1] y
     in (l, m, y))"

definition backward_step :: "Mat \<Rightarrow> Mat \<Rightarrow> Mat \<Rightarrow> int \<Rightarrow> Mat \<Rightarrow> Mat" where
  \<comment> \<open>the body of the loop over \<^verbatim>\<open>i\<close> of \<^verbatim>\<open>KAZE::Thomas\<close>, on \<open>x\<close>\<close>
  "backward_step b m y i x =
     fold (\<lambda>j x. set_elem x i j ((elem y i j - elem b i j * elem x (i + 1) j) / elem m i j))
       [0 .. cols x - 1] x"

definition Thomas :: "Mat \<Rightarrow> Mat \<Rightarrow> Mat \<Rightarrow> Mat \<Rightarrow> Mat" where
  \<comment> \<open>\<^verbatim>\<open>KAZE::Thomas(a, b, Ld, x)\<close>: the result is \<open>x\<close>, whose pixels the caller shares.
      The divisions are those of the reals: the pivots \<open>m\<close> are not zero where the theorems
      below use the result.\<close>
  "Thomas a b Ld x =
     (let n = rows a;
          m = zeros (rows a) (cols a);
          l = zeros (rows b) (cols b);
          y = zeros (rows Ld) (cols Ld);
          m = fold (\<lambda>j m. set_elem m 0 j (elem a 0 j)) [0 .. cols m - 1] m;
          y = fold (\<lambda>j y. set_elem y 0 j (elem Ld 0 j)) [0 .. cols y - 1] y;
          (l, m, y) = fold (forward_step a b Ld) [1 .. n - 1] (l, m, y);
          x = fold (\<lambda>j x. set_elem x (n - 1) j (elem y (n - 1) j / elem m (n - 1) j))
                [0 .. cols y - 1] x
      in fold (backward_step b m y) (rev [0 .. n - 2]) x)"

text \<open>The scratch matrices of the class, allocated by \<^verbatim>\<open>Allocate_Memory_Evolution\<close>.\<close>

record scratch =
  Ltx :: Mat
  Lty :: Mat
  px :: Mat
  py :: Mat
  ax :: Mat
  ay :: Mat
  bx :: Mat
  by' :: Mat
  qr :: Mat
  qc :: Mat

definition allocate_scratch :: "KAZEOptions \<Rightarrow> scratch" where
  \<comment> \<open>the end of \<^verbatim>\<open>Allocate_Memory_Evolution\<close>\<close>
  "allocate_scratch opt =
     (let img_height = img_height opt; img_width = img_width opt in
      \<lparr>Ltx = zeros img_width img_height,
       Lty = zeros img_height img_width,
       px = zeros img_height img_width,
       py = zeros img_height img_width,
       ax = zeros img_height img_width,
       ay = zeros img_height img_width,
       bx = zeros (img_height - 1) img_width,
       by' = zeros (img_height - 1) img_width,
       qr = zeros (img_height - 1) img_width,
       qc = zeros img_height (img_width - 1)\<rparr>)"

definition AOS_Rows :: "scratch \<Rightarrow> Mat \<Rightarrow> Mat \<Rightarrow> real \<Rightarrow> scratch" where
  \<comment> \<open>the sizes \<^verbatim>\<open>qr.rows\<close>, \<^verbatim>\<open>qr.cols\<close>, \<^verbatim>\<open>py.rows\<close>, \<^verbatim>\<open>py.cols\<close> are those of the members on entry:
      writing a pixel does not change them\<close>
  "AOS_Rows s Ldprev c stepsize =
     (let q = fold (\<lambda>i q. fold (\<lambda>j q. set_elem q i j (elem c i j + elem c (i + 1) j))
                             [0 .. cols (qr s) - 1] q)
                [0 .. rows (qr s) - 1] (qr s);
          p = fold (\<lambda>j p. set_elem p 0 j (elem q 0 j)) [0 .. cols (py s) - 1] (py s);
          p = fold (\<lambda>j p. set_elem p (rows (py s) - 1) j (elem q (rows (qr s) - 1) j))
                [0 .. cols (py s) - 1] p;
          p = fold (\<lambda>i p. fold (\<lambda>j p. set_elem p i j (elem q (i - 1) j + elem q i j))
                             [0 .. cols (py s) - 1] p)
                [1 .. rows (py s) - 2] p;
          a = mat_map (\<lambda>v. 1.0 + stepsize * v) p;
          b = mat_map (\<lambda>v. - stepsize * v) q;
          x = Thomas a b Ldprev (Lty s)
      in s\<lparr>qr := q, py := p, ay := a, by' := b, Lty := x\<rparr>)"

definition AOS_Columns :: "scratch \<Rightarrow> Mat \<Rightarrow> Mat \<Rightarrow> real \<Rightarrow> scratch" where
  "AOS_Columns s Ldprev c stepsize =
     (let q = fold (\<lambda>j q. fold (\<lambda>i q. set_elem q i j (elem c i j + elem c i (j + 1)))
                             [0 .. rows (qc s) - 1] q)
                [0 .. cols (qc s) - 1] (qc s);
          p = fold (\<lambda>i p. set_elem p i 0 (elem q i 0)) [0 .. rows (px s) - 1] (px s);
          p = fold (\<lambda>i p. set_elem p i (cols (px s) - 1) (elem q i (cols (qc s) - 1)))
                [0 .. rows (px s) - 1] p;
          p = fold (\<lambda>j p. fold (\<lambda>i p. set_elem p i j (elem q i (j - 1) + elem q i j))
                             [0 .. rows (px s) - 1] p)
                [1 .. cols (px s) - 2] p;
          a = mat_map (\<lambda>v. 1.0 + stepsize * v) (mat_t p);
          b = mat_map (\<lambda>v. - stepsize * v) (mat_t q);
          x = Thomas a b (mat_t Ldprev) (Ltx s)
      in s\<lparr>qc := q, px := p, ax := a, bx := b, Ltx := x\<rparr>)"

definition AOS_Step_Scalar :: "scratch \<Rightarrow> Mat \<Rightarrow> Mat \<Rightarrow> real \<Rightarrow> scratch \<times> Mat" where
  \<comment> \<open>the scratch matrices after the step, and \<^verbatim>\<open>Ld\<close>\<close>
  "AOS_Step_Scalar s Ldprev c stepsize =
     (let s = AOS_Rows s Ldprev c stepsize;
          s = AOS_Columns s Ldprev c stepsize
      in (s, mat_map (\<lambda>v. 0.5 * v) (mat_add (Lty s) (mat_t (Ltx s)))))"

text \<open>
  The row pass in words. For one column of an image with \<open>n\<close> rows: the sums \<open>q\<close> of
  vertically adjacent conductivities, the stencil weights \<open>p\<close>, the diagonal \<open>1 + \<tau> p\<close> and
  the off-diagonal \<open>- \<tau> q\<close>, then the Thomas recurrences (pivots, forward substitution,
  backward substitution) on the right-hand side \<open>d\<close>.
\<close>

definition q_rows :: "(int \<Rightarrow> int \<Rightarrow> real) \<Rightarrow> int \<Rightarrow> int \<Rightarrow> real" where
  "q_rows c i j = c i j + c (i + 1) j"

definition p_rows :: "(int \<Rightarrow> int \<Rightarrow> real) \<Rightarrow> int \<Rightarrow> int \<Rightarrow> int \<Rightarrow> real" where
  "p_rows c n i j =
     (if i = 0 then q_rows c 0 j
      else if i = n - 1 then q_rows c (n - 2) j
      else q_rows c (i - 1) j + q_rows c i j)"

definition diag_rows :: "(int \<Rightarrow> int \<Rightarrow> real) \<Rightarrow> int \<Rightarrow> real \<Rightarrow> int \<Rightarrow> int \<Rightarrow> real" where
  "diag_rows c n tau i j = 1 + tau * p_rows c n i j"

definition off_rows :: "(int \<Rightarrow> int \<Rightarrow> real) \<Rightarrow> real \<Rightarrow> int \<Rightarrow> int \<Rightarrow> real" where
  "off_rows c tau i j = - tau * q_rows c i j"

primrec pivot :: "(int \<Rightarrow> int \<Rightarrow> real) \<Rightarrow> (int \<Rightarrow> int \<Rightarrow> real) \<Rightarrow> int \<Rightarrow> nat \<Rightarrow> real" where
  "pivot a b j 0 = a 0 j"
| "pivot a b j (Suc k) = a (int (Suc k)) j - b (int k) j / pivot a b j k * b (int k) j"

primrec forward ::
  "(int \<Rightarrow> int \<Rightarrow> real) \<Rightarrow> (int \<Rightarrow> int \<Rightarrow> real) \<Rightarrow> (int \<Rightarrow> int \<Rightarrow> real) \<Rightarrow> int \<Rightarrow> nat \<Rightarrow> real" where
  "forward a b d j 0 = d 0 j"
| "forward a b d j (Suc k) =
     d (int (Suc k)) j - b (int k) j / pivot a b j k * forward a b d j k"

primrec backward ::
  "(int \<Rightarrow> int \<Rightarrow> real) \<Rightarrow> (int \<Rightarrow> int \<Rightarrow> real) \<Rightarrow> (int \<Rightarrow> int \<Rightarrow> real) \<Rightarrow> nat \<Rightarrow> int \<Rightarrow> nat \<Rightarrow> real" where
  \<comment> \<open>\<open>backward a b d n j r\<close> is the solution at row \<open>n - 1 - r\<close> of an \<open>n\<close>-row system\<close>
  "backward a b d n j 0 = forward a b d j (n - 1) / pivot a b j (n - 1)"
| "backward a b d n j (Suc r) =
     (forward a b d j (n - 2 - r) - b (int (n - 2 - r)) j * backward a b d n j r)
       / pivot a b j (n - 2 - r)"

definition thomas_solution ::
  "(int \<Rightarrow> int \<Rightarrow> real) \<Rightarrow> (int \<Rightarrow> int \<Rightarrow> real) \<Rightarrow> (int \<Rightarrow> int \<Rightarrow> real) \<Rightarrow> int \<Rightarrow> int \<Rightarrow> int \<Rightarrow> real" where
  "thomas_solution a b d n i j = backward a b d (nat n) j (nat (n - 1 - i))"

definition row_pass ::
  "(int \<Rightarrow> int \<Rightarrow> real) \<Rightarrow> (int \<Rightarrow> int \<Rightarrow> real) \<Rightarrow> int \<Rightarrow> real \<Rightarrow> int \<Rightarrow> int \<Rightarrow> real" where
  \<comment> \<open>the row pass on the image \<open>d\<close> with conductivity \<open>c\<close>, both of \<open>n\<close> rows\<close>
  "row_pass c d n tau i j =
     thomas_solution (diag_rows c n tau) (off_rows c tau) d n i j"

definition solves_tridiagonal ::
  "(int \<Rightarrow> int \<Rightarrow> real) \<Rightarrow> (int \<Rightarrow> int \<Rightarrow> real) \<Rightarrow> (int \<Rightarrow> int \<Rightarrow> real) \<Rightarrow> int
     \<Rightarrow> (int \<Rightarrow> int \<Rightarrow> real) \<Rightarrow> int \<Rightarrow> bool" where
  \<comment> \<open>column \<open>j\<close> of \<open>x\<close> solves the system with diagonal \<open>a\<close>, off-diagonal \<open>b\<close> on both
      sides and right-hand side \<open>d\<close>, of \<open>n \<ge> 2\<close> rows\<close>
  "solves_tridiagonal a b d n x j =
     (a 0 j * x 0 j + b 0 j * x 1 j = d 0 j
      \<and> list_all (\<lambda>k. b (k - 1) j * x (k - 1) j + a k j * x k j + b k j * x (k + 1) j = d k j)
           [1 .. n - 2]
      \<and> b (n - 2) j * x (n - 2) j + a (n - 1) j * x (n - 1) j = d (n - 1) j)"

text \<open>
  The invariants of the two loops of \<open>Thomas\<close>, on matrices of \<open>w\<close> columns: after the
  forward step \<open>K\<close> the rows \<open>0 .. K\<close> of \<open>m\<close> and \<open>y\<close> hold the pivots and the forward
  substitution; before the backward step \<open>I - 1\<close> the rows \<open>I .. n - 1\<close> of \<open>x\<close> hold the
  solution.
\<close>

definition fwd_inv ::
  "Mat \<Rightarrow> Mat \<Rightarrow> Mat \<Rightarrow> int \<Rightarrow> int \<Rightarrow> Mat \<times> Mat \<times> Mat \<Rightarrow> bool" where
  "fwd_inv a b Ld w K s = (case s of (l, m, y) \<Rightarrow>
     cols l = w \<and> cols m = w \<and> cols y = w \<and>
     (\<forall>j k. 0 \<le> j \<and> j < w \<and> 0 \<le> k \<and> k \<le> K \<longrightarrow>
        elem m k j = pivot (elem a) (elem b) j (nat k)
      \<and> elem y k j = forward (elem a) (elem b) (elem Ld) j (nat k)))"

definition bwd_inv :: "Mat \<Rightarrow> Mat \<Rightarrow> Mat \<Rightarrow> Mat \<Rightarrow> int \<Rightarrow> int \<Rightarrow> Mat \<Rightarrow> bool" where
  "bwd_inv a b Ld x0 w I x =
     (cols x = w \<and> rows x = rows x0 \<and>
      (\<forall>j i. 0 \<le> j \<and> j < w \<and> I \<le> i \<and> i \<le> rows a - 1 \<longrightarrow>
         elem x i j = thomas_solution (elem a) (elem b) (elem Ld) (rows a) i j))"

section \<open>The angle of a vector\<close>

definition Get_Angle :: "real \<Rightarrow> real \<Rightarrow> fl" where
  \<comment> \<open>\<^verbatim>\<open>CV_PI\<close> is \<open>pi\<close>; the arguments are finite floats\<close>
  "Get_Angle X Y =
     (if X \<ge> 0 \<and> Y \<ge> 0 then fl_atan (fl_div (Fin Y) (Fin X))
      else if X < 0 \<and> Y \<ge> 0 then fl_sub (Fin pi) (fl_atan (fl_div (Fin (- Y)) (Fin X)))
      else if X < 0 \<and> Y < 0 then fl_add (Fin pi) (fl_atan (fl_div (Fin Y) (Fin X)))
      else if X \<ge> 0 \<and> Y < 0 then
        fl_sub (Fin (pi + pi)) (fl_atan (fl_div (Fin (- Y)) (Fin X)))
      else Fin 0)"

section \<open>Descriptors\<close>

definition Check_Descriptor_Limits :: "int \<Rightarrow> int \<Rightarrow> int \<Rightarrow> int \<Rightarrow> int \<times> int" where
  \<comment> \<open>the four tests in the order of the source; the result is the new \<open>(x, y)\<close>\<close>
  "Check_Descriptor_Limits x y width height =
     (let x = (if x < 0 then 0 else x);
          y = (if y < 0 then 0 else y);
          x = (if x > width - 1 then width - 1 else x);
          y = (if y > height - 1 then height - 1 else y)
      in (x, y))"

text \<open>
  The four pixels around a sample point and the interpolation weights, as every extractor
  computes them from \<^verbatim>\<open>sample_x\<close> and \<^verbatim>\<open>sample_y\<close>.
\<close>

record sample_pos =
  x1 :: int
  y1 :: int
  x2 :: int
  y2 :: int
  fx :: real
  fy :: real

definition sample_at :: "KAZEOptions \<Rightarrow> real \<Rightarrow> real \<Rightarrow> sample_pos" where
  "sample_at opt sample_x sample_y =
     (let (xa, ya) = Check_Descriptor_Limits (c_int (sample_x - 0.5)) (c_int (sample_y - 0.5))
                       (img_width opt) (img_height opt);
          (xb, yb) = Check_Descriptor_Limits (c_int (sample_x + 0.5)) (c_int (sample_y + 0.5))
                       (img_width opt) (img_height opt)
      in \<lparr>x1 = xa, y1 = ya, x2 = xb, y2 = yb,
          fx = sample_x - real_of_int xa, fy = sample_y - real_of_int ya\<rparr>)"

definition interpolate :: "Mat \<Rightarrow> sample_pos \<Rightarrow> real" where
  \<comment> \<open>\<^verbatim>\<open>(1.0-fx)*(1.0-fy)*res1 + fx*(1.0-fy)*res2 + (1.0-fx)*fy*res3 + fx*fy*res4\<close>\<close>
  "interpolate m p =
     (let res1 = elem m (y1 p) (x1 p);
          res2 = elem m (y1 p) (x2 p);
          res3 = elem m (y2 p) (x1 p);
          res4 = elem m (y2 p) (x2 p)
      in (1 - fx p) * (1 - fy p) * res1 + fx p * (1 - fy p) * res2
         + (1 - fx p) * fy p * res3 + fx p * fy p * res4)"

definition rotated_sample :: "KAZEOptions \<Rightarrow> KeyPoint \<Rightarrow> int \<Rightarrow> int \<Rightarrow> sample_pos" where
  \<comment> \<open>the sample point \<open>(k, l)\<close> of the rotated G-SURF extractors\<close>
  "rotated_sample opt kpt k l =
     (let yf = pt_y kpt; xf = pt_x kpt;
          scale = fRound_of (fl_div (size_kp kpt) (Fin 2.0));
          co = cos (angle kpt); si = sin (angle kpt);
          sample_y = yf + (real_of_int (l * scale) * co + real_of_int (k * scale) * si);
          sample_x = xf + (real_of_int (- l * scale) * si + real_of_int (k * scale) * co)
      in sample_at opt sample_x sample_y)"

definition upright_sample :: "KAZEOptions \<Rightarrow> KeyPoint \<Rightarrow> int \<Rightarrow> int \<Rightarrow> sample_pos" where
  \<comment> \<open>the sample point \<open>(k, l)\<close> of \<^verbatim>\<open>Get_SURF_Upright_Descriptor_64\<close>\<close>
  "upright_sample opt kpt k l =
     (let yf = pt_y kpt; xf = pt_x kpt;
          scale = fRound_of (fl_div (size_kp kpt) (Fin 2.0));
          sample_y = real_of_int (k * scale) + yf;
          sample_x = real_of_int (l * scale) + xf
      in sample_at opt sample_x sample_y)"

definition gauge :: "tevolution \<Rightarrow> sample_pos \<Rightarrow> real \<times> real" where
  \<comment> \<open>the gauge derivatives \<open>(lww, lvv)\<close> at a sample point\<close>
  "gauge L p =
     (let rx = interpolate (Lx L) p;
          ry = interpolate (Ly L) p;
          modg = rx\<^sup>2 + ry\<^sup>2
      in if modg \<noteq> 0 then
           let rxx = interpolate (Lxx L) p;
               rxy = interpolate (Lxy L) p;
               ryy = interpolate (Lyy L) p
           in ((rx\<^sup>2 * rxx + 2 * rx * rxy * ry + ry\<^sup>2 * ryy) / modg,
               (- 2 * rx * rxy * ry + rxx * ry\<^sup>2 + rx\<^sup>2 * ryy) / modg)
         else (0, 0))"

definition steps :: "int \<Rightarrow> int \<Rightarrow> int \<Rightarrow> int list" where
  \<comment> \<open>the values of \<^verbatim>\<open>for (i = lo; i < hi; i += st)\<close>, \<open>st > 0\<close>\<close>
  "steps lo hi st = map (\<lambda>n. lo + int n * st) [0 ..< nat ((hi - lo + st - 1) div st)]"

definition pattern_size :: int where "pattern_size = 10"
definition sample_step :: int where "sample_step = 5"

record acc4 =
  dx :: real
  dy :: real
  mdx :: real
  mdy :: real

record acc8 =
  dxp :: real
  dxn :: real
  mdxp :: real
  mdxn :: real
  dyp :: real
  dyn :: real
  mdyp :: real
  mdyn :: real

definition add4 :: "real \<times> real \<Rightarrow> acc4 \<Rightarrow> acc4" where
  \<comment> \<open>\<^verbatim>\<open>dx += u; dy += v; mdx += fabs(u); mdy += fabs(v);\<close>\<close>
  "add4 uv a = (case uv of (u, v) \<Rightarrow>
     \<lparr>dx = dx a + u, dy = dy a + v, mdx = mdx a + \<bar>u\<bar>, mdy = mdy a + \<bar>v\<bar>\<rparr>)"

definition add8_gsurf :: "real \<times> real \<Rightarrow> acc8 \<Rightarrow> acc8" where
  \<comment> \<open>the two \<^verbatim>\<open>if\<close> statements under \<^verbatim>\<open>// Sum the derivatives to the cumulative descriptor\<close>
      of \<^verbatim>\<open>Get_GSURF_Descriptor_128\<close>, for the sample \<open>(lww, lvv)\<close>\<close>
  "add8_gsurf s a = (case s of (lww, lvv) \<Rightarrow>
     let a = (if lww \<ge> 0 then a\<lparr>dxp := dxp a + lvv, mdxp := mdxp a + \<bar>lvv\<bar>\<rparr>
              else a\<lparr>dxn := dxn a + lvv, mdxn := mdxn a + \<bar>lvv\<bar>\<rparr>)
     in (if lvv \<ge> 0 then a\<lparr>dyp := dyp a + lww, mdyp := mdyp a + \<bar>lww\<bar>\<rparr>
         else a\<lparr>dyn := dyn a + lww, mdyn := mdyn a + \<bar>lww\<bar>\<rparr>))"

definition cell :: "(int \<Rightarrow> int \<Rightarrow> 'a \<Rightarrow> 'a) \<Rightarrow> int \<Rightarrow> int \<Rightarrow> 'a \<Rightarrow> 'a" where
  \<comment> \<open>\<^verbatim>\<open>for (k = i; k < i + sample_step; k++) for (l = j; l < j + sample_step; l++)\<close>\<close>
  "cell body i j a =
     fold (\<lambda>k a. fold (\<lambda>l a. body k l a) [j .. j + sample_step - 1] a)
       [i .. i + sample_step - 1] a"

definition grid :: "(int \<Rightarrow> int \<Rightarrow> 's \<Rightarrow> 's) \<Rightarrow> 's \<Rightarrow> 's" where
  \<comment> \<open>\<^verbatim>\<open>for (i = -pattern_size; i < pattern_size; i += sample_step)\<close>, the same for \<open>j\<close>\<close>
  "grid body s =
     fold (\<lambda>i s. fold (\<lambda>j s. body i j s) (steps (- pattern_size) pattern_size sample_step) s)
       (steps (- pattern_size) pattern_size sample_step) s"

definition put4 :: "acc4 \<Rightarrow> real list \<times> real \<Rightarrow> real list \<times> real" where
  \<comment> \<open>four \<^verbatim>\<open>desc[dcount++] = ...\<close> and the update of \<^verbatim>\<open>len\<close>\<close>
  "put4 a s = (case s of (desc, len) \<Rightarrow>
     (desc @ [dx a, dy a, mdx a, mdy a],
      len + (dx a * dx a + dy a * dy a + mdx a * mdx a + mdy a * mdy a)))"

definition put8 :: "acc8 \<Rightarrow> real list \<times> real \<Rightarrow> real list \<times> real" where
  \<comment> \<open>eight \<^verbatim>\<open>desc[dcount++] = ...\<close> and the update of \<^verbatim>\<open>len\<close>\<close>
  "put8 a s = (case s of (desc, len) \<Rightarrow>
     (desc @ [dxp a, dxn a, mdxp a, mdxn a, dyp a, dyn a, mdyp a, mdyn a],
      len + (dxp a * dxp a + dxn a * dxn a + mdxp a * mdxp a + mdxn a * mdxn a
             + dyp a * dyp a + dyn a * dyn a + mdyp a * mdyp a + mdyn a * mdyn a)))"

definition zero4 :: acc4 where
  "zero4 = \<lparr>dx = 0, dy = 0, mdx = 0, mdy = 0\<rparr>"

definition zero8 :: acc8 where
  "zero8 = \<lparr>dxp = 0, dxn = 0, mdxp = 0, mdxn = 0, dyp = 0, dyn = 0, mdyp = 0, mdyn = 0\<rparr>"

text \<open>
  The clipping constants \<^verbatim>\<open>USE_CLIPPING_NORMALIZATION\<close>, \<^verbatim>\<open>CLIPPING_NORMALIZATION_NITER\<close> and
  \<^verbatim>\<open>CLIPPING_NORMALIZATION_RATIO\<close> are macros of \<^verbatim>\<open>kaze_config.h\<close>, taken as parameters.
\<close>

record clipping =
  USE_CLIPPING_NORMALIZATION :: bool
  CLIPPING_NORMALIZATION_NITER :: int
  CLIPPING_NORMALIZATION_RATIO :: real

definition clip_pass :: "real \<Rightarrow> nat \<Rightarrow> fl list \<Rightarrow> fl list" where
  \<comment> \<open>one iteration of the outer loop of \<^verbatim>\<open>Clipping_Descriptor\<close>\<close>
  "clip_pass cratio dsize desc =
     (let (desc, len) =
            fold (\<lambda>j (desc, len).
                    let desc = (if fl_less (Fin cratio) (desc ! j) then desc[j := Fin cratio]
                                else if fl_less (desc ! j) (Fin (- cratio))
                                then desc[j := Fin (- cratio)]
                                else desc)
                    in (desc, fl_add len (fl_mul (desc ! j) (desc ! j))))
              [0 ..< dsize] (desc, Fin 0);
          len = fl_sqrt len
      in fold (\<lambda>j desc. desc[j := fl_div (desc ! j) len]) [0 ..< dsize] desc)"

definition Clipping_Descriptor :: "fl list \<Rightarrow> nat \<Rightarrow> int \<Rightarrow> real \<Rightarrow> fl list" where
  "Clipping_Descriptor desc dsize niter ratio =
     (let cratio = ratio / sqrt (real dsize)
      in fold (\<lambda>i desc. clip_pass cratio dsize desc) [0 ..< nat niter] desc)"

definition finish_descriptor :: "clipping \<Rightarrow> nat \<Rightarrow> real list \<times> real \<Rightarrow> fl list" where
  \<comment> \<open>the end of every extractor, from \<^verbatim>\<open>// convert to unit vector\<close> on\<close>
  "finish_descriptor clip dsize s = (case s of (desc, len) \<Rightarrow>
     let len = sqrt len;
         desc = fold (\<lambda>i desc. desc[i := fl_div (desc ! i) (Fin len)]) [0 ..< dsize]
                  (map Fin desc)
     in if USE_CLIPPING_NORMALIZATION clip
        then Clipping_Descriptor desc dsize (CLIPPING_NORMALIZATION_NITER clip)
               (CLIPPING_NORMALIZATION_RATIO clip)
        else desc)"

definition surf_upright_cell :: "KAZEOptions \<Rightarrow> tevolution list \<Rightarrow> KeyPoint \<Rightarrow> int \<Rightarrow> int \<Rightarrow> acc4" where
  "surf_upright_cell opt ev kpt i j =
     cell (\<lambda>k l. let p = upright_sample opt kpt k l;
                      rx = interpolate (Lx (level_at ev (class_id kpt))) p;
                      ry = interpolate (Ly (level_at ev (class_id kpt))) p
                  in add4 (rx, ry)) i j zero4"

definition Get_SURF_Upright_Descriptor_64 ::
  "clipping \<Rightarrow> KAZEOptions \<Rightarrow> tevolution list \<Rightarrow> KeyPoint \<Rightarrow> fl list" where
  "Get_SURF_Upright_Descriptor_64 clip opt ev kpt =
     finish_descriptor clip 64 (grid (\<lambda>i j. put4 (surf_upright_cell opt ev kpt i j)) ([], 0))"

definition gsurf_cell :: "KAZEOptions \<Rightarrow> tevolution list \<Rightarrow> KeyPoint \<Rightarrow> int \<Rightarrow> int \<Rightarrow> acc4" where
  "gsurf_cell opt ev kpt i j =
     cell (\<lambda>k l. add4 (gauge (level_at ev (class_id kpt)) (rotated_sample opt kpt k l)))
       i j zero4"

definition Get_GSURF_Descriptor_64 ::
  "clipping \<Rightarrow> KAZEOptions \<Rightarrow> tevolution list \<Rightarrow> KeyPoint \<Rightarrow> fl list" where
  "Get_GSURF_Descriptor_64 clip opt ev kpt =
     finish_descriptor clip 64 (grid (\<lambda>i j. put4 (gsurf_cell opt ev kpt i j)) ([], 0))"

definition gsurf128_cell :: "KAZEOptions \<Rightarrow> tevolution list \<Rightarrow> KeyPoint \<Rightarrow> int \<Rightarrow> int \<Rightarrow> acc8" where
  "gsurf128_cell opt ev kpt i j =
     cell (\<lambda>k l. add8_gsurf (gauge (level_at ev (class_id kpt)) (rotated_sample opt kpt k l)))
       i j zero8"

definition gsurf128_sums :: "KAZEOptions \<Rightarrow> tevolution list \<Rightarrow> KeyPoint \<Rightarrow> real list \<times> real" where
  \<comment> \<open>\<^verbatim>\<open>desc\<close> and \<^verbatim>\<open>len\<close> of \<^verbatim>\<open>Get_GSURF_Descriptor_128\<close> before the normalisation\<close>
  "gsurf128_sums opt ev kpt = grid (\<lambda>i j. put8 (gsurf128_cell opt ev kpt i j)) ([], 0)"

definition Get_GSURF_Descriptor_128 ::
  "clipping \<Rightarrow> KAZEOptions \<Rightarrow> tevolution list \<Rightarrow> KeyPoint \<Rightarrow> fl list" where
  "Get_GSURF_Descriptor_128 clip opt ev kpt =
     finish_descriptor clip 128 (gsurf128_sums opt ev kpt)"

text \<open>
  The other extractors of the file. The SURF family sums the derivatives \<open>(rx, ry)\<close>
  themselves, rotated by the angle of the keypoint in the rotated extractors; the extended
  descriptors split the sums by sign.
\<close>

definition gsurf_upright_sample :: "KAZEOptions \<Rightarrow> KeyPoint \<Rightarrow> int \<Rightarrow> int \<Rightarrow> sample_pos" where
  \<comment> \<open>the sample point \<open>(k, l)\<close> of \<^verbatim>\<open>Get_GSURF_Upright_Descriptor_64\<close>:
      \<^verbatim>\<open>sample_y = yf + l*scale; sample_x = xf + k*scale;\<close>\<close>
  "gsurf_upright_sample opt kpt k l =
     (let yf = pt_y kpt; xf = pt_x kpt;
          scale = fRound_of (fl_div (size_kp kpt) (Fin 2.0));
          sample_y = yf + real_of_int (l * scale);
          sample_x = xf + real_of_int (k * scale)
      in sample_at opt sample_x sample_y)"

definition rotate_deriv :: "KeyPoint \<Rightarrow> real \<times> real \<Rightarrow> real \<times> real" where
  \<comment> \<open>\<^verbatim>\<open>rry = rx*co + ry*si; rrx = -rx*si + ry*co;\<close>, the result being \<open>(rrx, rry)\<close>\<close>
  "rotate_deriv kpt r = (case r of (rx, ry) \<Rightarrow>
     let co = cos (angle kpt); si = sin (angle kpt)
     in (- rx * si + ry * co, rx * co + ry * si))"

definition derivs :: "tevolution \<Rightarrow> sample_pos \<Rightarrow> real \<times> real" where
  \<comment> \<open>\<open>(rx, ry)\<close>: \<^verbatim>\<open>Lx\<close> and \<^verbatim>\<open>Ly\<close> interpolated at the sample point\<close>
  "derivs L p = (interpolate (Lx L) p, interpolate (Ly L) p)"

definition add8_surf :: "real \<times> real \<Rightarrow> acc8 \<Rightarrow> acc8" where
  \<comment> \<open>the two \<^verbatim>\<open>if\<close> statements of the extended SURF extractors, for the derivatives
      \<open>(u, v)\<close>: \<^verbatim>\<open>if (v >= 0.0) { dxp += u; mdxp += fabs(u); } else ...\<close>, then
      \<^verbatim>\<open>if (u >= 0.0) { dyp += v; mdyp += fabs(v); } else ...\<close>\<close>
  "add8_surf s a = (case s of (u, v) \<Rightarrow>
     let a = (if v \<ge> 0 then a\<lparr>dxp := dxp a + u, mdxp := mdxp a + \<bar>u\<bar>\<rparr>
              else a\<lparr>dxn := dxn a + u, mdxn := mdxn a + \<bar>u\<bar>\<rparr>)
     in (if u \<ge> 0 then a\<lparr>dyp := dyp a + v, mdyp := mdyp a + \<bar>v\<bar>\<rparr>
         else a\<lparr>dyn := dyn a + v, mdyn := mdyn a + \<bar>v\<bar>\<rparr>))"

definition Get_SURF_Upright_Descriptor_128 ::
  "clipping \<Rightarrow> KAZEOptions \<Rightarrow> tevolution list \<Rightarrow> KeyPoint \<Rightarrow> fl list" where
  "Get_SURF_Upright_Descriptor_128 clip opt ev kpt =
     finish_descriptor clip 128
       (grid (\<lambda>i j. put8 (cell (\<lambda>k l. add8_surf (derivs (level_at ev (class_id kpt))
                                                     (upright_sample opt kpt k l)))
                            i j zero8))
          ([], 0))"

definition Get_SURF_Descriptor_128 ::
  "clipping \<Rightarrow> KAZEOptions \<Rightarrow> tevolution list \<Rightarrow> KeyPoint \<Rightarrow> fl list" where
  "Get_SURF_Descriptor_128 clip opt ev kpt =
     finish_descriptor clip 128
       (grid (\<lambda>i j. put8 (cell (\<lambda>k l. add8_surf (rotate_deriv kpt
                                          (derivs (level_at ev (class_id kpt))
                                             (rotated_sample opt kpt k l))))
                            i j zero8))
          ([], 0))"

definition Get_SURF_Descriptor_64 ::
  "clipping \<Rightarrow> KAZEOptions \<Rightarrow> tevolution list \<Rightarrow> KeyPoint \<Rightarrow> fl list" where
  "Get_SURF_Descriptor_64 clip opt ev kpt =
     finish_descriptor clip 64
       (grid (\<lambda>i j. put4 (cell (\<lambda>k l. add4 (rotate_deriv kpt
                                     (derivs (level_at ev (class_id kpt))
                                        (rotated_sample opt kpt k l))))
                            i j zero4))
          ([], 0))"

definition Get_GSURF_Upright_Descriptor_64 ::
  "clipping \<Rightarrow> KAZEOptions \<Rightarrow> tevolution list \<Rightarrow> KeyPoint \<Rightarrow> fl list" where
  "Get_GSURF_Upright_Descriptor_64 clip opt ev kpt =
     finish_descriptor clip 64
       (grid (\<lambda>i j. put4 (cell (\<lambda>k l. add4 (gauge (level_at ev (class_id kpt))
                                                (gsurf_upright_sample opt kpt k l)))
                            i j zero4))
          ([], 0))"

text \<open>
  The M-SURF family weights every sample by a Gaussian centred on its subregion, and every
  subregion by a Gaussian centred on the keypoint. With a keypoint of scale 0 the first
  Gaussian has \<open>sig = 0\<close> and divides by zero, so the weights and the sums are floats that
  need not be finite.
\<close>

definition gaussian :: "real \<Rightarrow> real \<Rightarrow> real \<Rightarrow> fl" where
  \<comment> \<open>\<^verbatim>\<open>return exp(-(x*x+y*y)/(2.0f*sig*sig));\<close>\<close>
  "gaussian x y sig = fl_exp (fl_div (Fin (- (x * x + y * y))) (Fin (2.0 * sig * sig)))"

record wacc4 =
  wdx :: fl
  wdy :: fl
  wmdx :: fl
  wmdy :: fl

record wacc8 =
  wdxp :: fl
  wdxn :: fl
  wmdxp :: fl
  wmdxn :: fl
  wdyp :: fl
  wdyn :: fl
  wmdyp :: fl
  wmdyn :: fl

definition wzero4 :: wacc4 where
  "wzero4 = \<lparr>wdx = Fin 0, wdy = Fin 0, wmdx = Fin 0, wmdy = Fin 0\<rparr>"

definition wzero8 :: wacc8 where
  "wzero8 = \<lparr>wdxp = Fin 0, wdxn = Fin 0, wmdxp = Fin 0, wmdxn = Fin 0,
             wdyp = Fin 0, wdyn = Fin 0, wmdyp = Fin 0, wmdyn = Fin 0\<rparr>"

definition wadd4 :: "fl \<times> fl \<Rightarrow> wacc4 \<Rightarrow> wacc4" where
  \<comment> \<open>\<^verbatim>\<open>dx += u; dy += v; mdx += fabs(u); mdy += fabs(v);\<close>\<close>
  "wadd4 uv a = (case uv of (u, v) \<Rightarrow>
     \<lparr>wdx = fl_add (wdx a) u, wdy = fl_add (wdy a) v,
      wmdx = fl_add (wmdx a) (fl_abs u), wmdy = fl_add (wmdy a) (fl_abs v)\<rparr>)"

definition wadd8 :: "fl \<times> fl \<Rightarrow> wacc8 \<Rightarrow> wacc8" where
  \<comment> \<open>as \<open>add8_surf\<close>, on floats: a comparison with a NaN is false\<close>
  "wadd8 s a = (case s of (u, v) \<Rightarrow>
     let a = (if fl_le (Fin 0) v
              then a\<lparr>wdxp := fl_add (wdxp a) u, wmdxp := fl_add (wmdxp a) (fl_abs u)\<rparr>
              else a\<lparr>wdxn := fl_add (wdxn a) u, wmdxn := fl_add (wmdxn a) (fl_abs u)\<rparr>)
     in (if fl_le (Fin 0) u
         then a\<lparr>wdyp := fl_add (wdyp a) v, wmdyp := fl_add (wmdyp a) (fl_abs v)\<rparr>
         else a\<lparr>wdyn := fl_add (wdyn a) v, wmdyn := fl_add (wmdyn a) (fl_abs v)\<rparr>))"

definition wput4 :: "fl \<Rightarrow> wacc4 \<Rightarrow> fl list \<times> fl \<Rightarrow> fl list \<times> fl" where
  \<comment> \<open>four \<^verbatim>\<open>desc[dcount++] = ...*gauss_s2\<close> and
      \<^verbatim>\<open>len += (dx*dx + dy*dy + mdx*mdx + mdy*mdy)*gauss_s2*gauss_s2\<close>\<close>
  "wput4 g a s = (case s of (desc, len) \<Rightarrow>
     (desc @ [fl_mul (wdx a) g, fl_mul (wdy a) g, fl_mul (wmdx a) g, fl_mul (wmdy a) g],
      fl_add len
        (fl_mul (fl_mul (fl_add (fl_add (fl_add (fl_mul (wdx a) (wdx a)) (fl_mul (wdy a) (wdy a)))
                                        (fl_mul (wmdx a) (wmdx a)))
                                (fl_mul (wmdy a) (wmdy a)))
                        g)
           g)))"

definition wput8 :: "fl \<Rightarrow> wacc8 \<Rightarrow> fl list \<times> fl \<Rightarrow> fl list \<times> fl" where
  "wput8 g a s = (case s of (desc, len) \<Rightarrow>
     (desc @ [fl_mul (wdxp a) g, fl_mul (wdxn a) g, fl_mul (wmdxp a) g, fl_mul (wmdxn a) g,
              fl_mul (wdyp a) g, fl_mul (wdyn a) g, fl_mul (wmdyp a) g, fl_mul (wmdyn a) g],
      fl_add len
        (fl_mul
           (fl_mul
              (fl_add (fl_add (fl_add (fl_add (fl_add (fl_add (fl_add
                 (fl_mul (wdxp a) (wdxp a)) (fl_mul (wdxn a) (wdxn a)))
                 (fl_mul (wmdxp a) (wmdxp a))) (fl_mul (wmdxn a) (wmdxn a)))
                 (fl_mul (wdyp a) (wdyp a))) (fl_mul (wdyn a) (wdyn a)))
                 (fl_mul (wmdyp a) (wmdyp a))) (fl_mul (wmdyn a) (wmdyn a)))
              g)
           g)))"

function msurf_while :: "(int \<Rightarrow> real \<Rightarrow> 's \<Rightarrow> 's) \<Rightarrow> int \<Rightarrow> real \<Rightarrow> 's \<Rightarrow> 's" where
  \<comment> \<open>\<^verbatim>\<open>while (i < pattern_size) { i = i-4; cx += 1.0; ... i += 9; }\<close> with
      \<^verbatim>\<open>pattern_size = 12\<close>, on the index and the centre; the loop over \<^verbatim>\<open>j\<close> and \<^verbatim>\<open>cy\<close> is
      the same\<close>
  "msurf_while body i c s =
     (if i < 12 then
        let i = i - 4; c = c + 1.0; s = body i c s
        in msurf_while body (i + 9) c s
      else s)"
  by pat_completeness auto
termination
  by (relation "measure (\<lambda>(body, i, c, s). nat (12 - i))") auto

declare msurf_while.simps [simp del]

definition msurf_grid :: "(int \<Rightarrow> int \<Rightarrow> real \<Rightarrow> real \<Rightarrow> 's \<Rightarrow> 's) \<Rightarrow> 's \<Rightarrow> 's" where
  \<comment> \<open>\<^verbatim>\<open>i = -8; while (i < pattern_size) { j = -8; ...; cy = -0.5; while (j < pattern_size)\<close>,
      from \<^verbatim>\<open>cx = -0.5\<close>\<close>
  "msurf_grid body s =
     msurf_while (\<lambda>i cx s. msurf_while (\<lambda>j cy s. body i j cx cy s) (- 8) (- 0.5) s)
       (- 8) (- 0.5) s"

definition cell9 :: "(int \<Rightarrow> int \<Rightarrow> 'a \<Rightarrow> 'a) \<Rightarrow> int \<Rightarrow> int \<Rightarrow> 'a \<Rightarrow> 'a" where
  \<comment> \<open>\<^verbatim>\<open>for (k = i; k < i+9; k++) for (l = j; l < j+9; l++)\<close>\<close>
  "cell9 body i j a =
     fold (\<lambda>k a. fold (\<lambda>l a. body k l a) [j .. j + 9 - 1] a) [i .. i + 9 - 1] a"

definition msurf_upright_weight :: "KeyPoint \<Rightarrow> int \<Rightarrow> int \<Rightarrow> int \<Rightarrow> int \<Rightarrow> fl" where
  \<comment> \<open>\<^verbatim>\<open>gauss_s1\<close> of the upright M-SURF extractors, for the sample \<open>(k, l)\<close> of the
      subregion \<open>(i, j)\<close>\<close>
  "msurf_upright_weight kpt i j k l =
     (let yf = pt_y kpt; xf = pt_x kpt;
          scale = fRound_of (fl_div (size_kp kpt) (Fin 2.0));
          ky = i + sample_step; kx = j + sample_step;
          ys = yf + real_of_int (ky * scale);
          xs = xf + real_of_int (kx * scale);
          sample_y = real_of_int (k * scale) + yf;
          sample_x = real_of_int (l * scale) + xf
      in gaussian (xs - sample_x) (ys - sample_y) (2.5 * real_of_int scale))"

definition sample_at_round :: "KAZEOptions \<Rightarrow> real \<Rightarrow> real \<Rightarrow> sample_pos" where
  \<comment> \<open>as \<open>sample_at\<close>, with \<^verbatim>\<open>y1 = fRound(sample_y-.5); x1 = fRound(sample_x-.5);\<close>, as the
      rotated M-SURF extractors have it\<close>
  "sample_at_round opt sample_x sample_y =
     (let (xa, ya) = Check_Descriptor_Limits (fRound (sample_x - 0.5)) (fRound (sample_y - 0.5))
                       (img_width opt) (img_height opt);
          (xb, yb) = Check_Descriptor_Limits (c_int (sample_x + 0.5)) (c_int (sample_y + 0.5))
                       (img_width opt) (img_height opt)
      in \<lparr>x1 = xa, y1 = ya, x2 = xb, y2 = yb,
          fx = sample_x - real_of_int xa, fy = sample_y - real_of_int ya\<rparr>)"

definition msurf_rotated_sample :: "KAZEOptions \<Rightarrow> KeyPoint \<Rightarrow> int \<Rightarrow> int \<Rightarrow> sample_pos" where
  "msurf_rotated_sample opt kpt k l =
     (let yf = pt_y kpt; xf = pt_x kpt;
          scale = fRound_of (fl_div (size_kp kpt) (Fin 2.0));
          co = cos (angle kpt); si = sin (angle kpt);
          sample_y = yf + (real_of_int (l * scale) * co + real_of_int (k * scale) * si);
          sample_x = xf + (real_of_int (- l * scale) * si + real_of_int (k * scale) * co)
      in sample_at_round opt sample_x sample_y)"

definition msurf_rotated_weight :: "KeyPoint \<Rightarrow> int \<Rightarrow> int \<Rightarrow> int \<Rightarrow> int \<Rightarrow> fl" where
  \<comment> \<open>\<^verbatim>\<open>gauss_s1\<close> of the rotated M-SURF extractors\<close>
  "msurf_rotated_weight kpt i j k l =
     (let yf = pt_y kpt; xf = pt_x kpt;
          scale = fRound_of (fl_div (size_kp kpt) (Fin 2.0));
          co = cos (angle kpt); si = sin (angle kpt);
          ky = i + sample_step; kx = j + sample_step;
          xs = xf + (real_of_int (- kx * scale) * si + real_of_int (ky * scale) * co);
          ys = yf + (real_of_int (kx * scale) * co + real_of_int (ky * scale) * si);
          sample_y = yf + (real_of_int (l * scale) * co + real_of_int (k * scale) * si);
          sample_x = xf + (real_of_int (- l * scale) * si + real_of_int (k * scale) * co)
      in gaussian (xs - sample_x) (ys - sample_y) (2.5 * real_of_int scale))"

definition weighted :: "fl \<Rightarrow> real \<times> real \<Rightarrow> fl \<times> fl" where
  \<comment> \<open>\<^verbatim>\<open>gauss_s1*u\<close> and \<^verbatim>\<open>gauss_s1*v\<close>\<close>
  "weighted g r = (case r of (u, v) \<Rightarrow> (fl_mul g (Fin u), fl_mul g (Fin v)))"

definition finish_weighted :: "clipping \<Rightarrow> nat \<Rightarrow> fl list \<times> fl \<Rightarrow> fl list" where
  \<comment> \<open>the end of the M-SURF extractors, from \<^verbatim>\<open>// convert to unit vector\<close> on\<close>
  "finish_weighted clip dsize s = (case s of (desc, len) \<Rightarrow>
     let len = fl_sqrt len;
         desc = fold (\<lambda>i desc. desc[i := fl_div (desc ! i) len]) [0 ..< dsize] desc
     in if USE_CLIPPING_NORMALIZATION clip
        then Clipping_Descriptor desc dsize (CLIPPING_NORMALIZATION_NITER clip)
               (CLIPPING_NORMALIZATION_RATIO clip)
        else desc)"

definition Get_MSURF_Upright_Descriptor_64 ::
  "clipping \<Rightarrow> KAZEOptions \<Rightarrow> tevolution list \<Rightarrow> KeyPoint \<Rightarrow> fl list" where
  "Get_MSURF_Upright_Descriptor_64 clip opt ev kpt =
     finish_weighted clip 64
       (msurf_grid (\<lambda>i j cx cy.
          wput4 (gaussian (cx - 2.0) (cy - 2.0) 1.5)
            (cell9 (\<lambda>k l. wadd4 (weighted (msurf_upright_weight kpt i j k l)
                                   (derivs (level_at ev (class_id kpt))
                                      (upright_sample opt kpt k l))))
               i j wzero4))
          ([], Fin 0))"

definition Get_MSURF_Descriptor_64 ::
  "clipping \<Rightarrow> KAZEOptions \<Rightarrow> tevolution list \<Rightarrow> KeyPoint \<Rightarrow> fl list" where
  "Get_MSURF_Descriptor_64 clip opt ev kpt =
     finish_weighted clip 64
       (msurf_grid (\<lambda>i j cx cy.
          wput4 (gaussian (cx - 2.0) (cy - 2.0) 1.5)
            (cell9 (\<lambda>k l. wadd4 (weighted (msurf_rotated_weight kpt i j k l)
                                   (rotate_deriv kpt
                                      (derivs (level_at ev (class_id kpt))
                                         (msurf_rotated_sample opt kpt k l)))))
               i j wzero4))
          ([], Fin 0))"

definition Get_MSURF_Upright_Descriptor_128 ::
  "clipping \<Rightarrow> KAZEOptions \<Rightarrow> tevolution list \<Rightarrow> KeyPoint \<Rightarrow> fl list" where
  "Get_MSURF_Upright_Descriptor_128 clip opt ev kpt =
     finish_weighted clip 128
       (msurf_grid (\<lambda>i j cx cy.
          wput8 (gaussian (cx - 2.0) (cy - 2.0) 1.5)
            (cell9 (\<lambda>k l. wadd8 (weighted (msurf_upright_weight kpt i j k l)
                                   (derivs (level_at ev (class_id kpt))
                                      (upright_sample opt kpt k l))))
               i j wzero8))
          ([], Fin 0))"

definition Get_MSURF_Descriptor_128 ::
  "clipping \<Rightarrow> KAZEOptions \<Rightarrow> tevolution list \<Rightarrow> KeyPoint \<Rightarrow> fl list" where
  "Get_MSURF_Descriptor_128 clip opt ev kpt =
     finish_weighted clip 128
       (msurf_grid (\<lambda>i j cx cy.
          wput8 (gaussian (cx - 2.0) (cy - 2.0) 1.5)
            (cell9 (\<lambda>k l. wadd8 (weighted (msurf_rotated_weight kpt i j k l)
                                   (rotate_deriv kpt
                                      (derivs (level_at ev (class_id kpt))
                                         (msurf_rotated_sample opt kpt k l)))))
               i j wzero8))
          ([], Fin 0))"

text \<open>
  The bucketing of the extended G-SURF descriptor in words: over the samples \<open>(lww, lvv)\<close>
  of a cell, the \<open>x\<close>-half sums \<open>lvv\<close> and is keyed by the sign of \<open>lww\<close>, the \<open>y\<close>-half
  sums \<open>lww\<close> and is keyed by the sign of \<open>lvv\<close>.
\<close>

definition gsurf128_samples ::
  "KAZEOptions \<Rightarrow> tevolution list \<Rightarrow> KeyPoint \<Rightarrow> int \<Rightarrow> int \<Rightarrow> (real \<times> real) list" where
  "gsurf128_samples opt ev kpt i j =
     concat (map (\<lambda>k. map (\<lambda>l. gauge (level_at ev (class_id kpt)) (rotated_sample opt kpt k l))
                        [j .. j + sample_step - 1])
               [i .. i + sample_step - 1])"

definition swapped_buckets :: "(real \<times> real) list \<Rightarrow> acc8" where
  "swapped_buckets S =
     \<lparr>dxp = sum_list (map snd (filter (\<lambda>(lww, lvv). lww \<ge> 0) S)),
      dxn = sum_list (map snd (filter (\<lambda>(lww, lvv). lww < 0) S)),
      mdxp = sum_list (map (\<lambda>(lww, lvv). \<bar>lvv\<bar>) (filter (\<lambda>(lww, lvv). lww \<ge> 0) S)),
      mdxn = sum_list (map (\<lambda>(lww, lvv). \<bar>lvv\<bar>) (filter (\<lambda>(lww, lvv). lww < 0) S)),
      dyp = sum_list (map fst (filter (\<lambda>(lww, lvv). lvv \<ge> 0) S)),
      dyn = sum_list (map fst (filter (\<lambda>(lww, lvv). lvv < 0) S)),
      mdyp = sum_list (map (\<lambda>(lww, lvv). \<bar>lww\<bar>) (filter (\<lambda>(lww, lvv). lvv \<ge> 0) S)),
      mdyn = sum_list (map (\<lambda>(lww, lvv). \<bar>lww\<bar>) (filter (\<lambda>(lww, lvv). lvv < 0) S))\<rparr>"

definition entries8 :: "acc8 \<Rightarrow> real list" where
  "entries8 a = [dxp a, dxn a, mdxp a, mdxn a, dyp a, dyn a, mdyp a, mdyn a]"

section \<open>Concrete inputs\<close>

text \<open>
  The arithmetic with which the definitions are run on concrete inputs: a result within the
  float range is kept as it is (not rounded); a result of magnitude \<open>2 ^ 128 - 2 ^ 103\<close> or more,
  which rounding to the nearest float sends beyond the largest float, is infinite.
\<close>

definition float_overflow :: real where
  "float_overflow = 2 ^ 128 - 2 ^ 103"

definition range_rnd :: "real \<Rightarrow> fl" where
  "range_rnd x =
     (if float_overflow \<le> x then PInf else if x \<le> - float_overflow then NInf else Fin x)"

definition range_pow2 :: "fl \<Rightarrow> fl" where
  "range_pow2 e = (case e of Fin x \<Rightarrow> range_rnd (2 powr x) | PInf \<Rightarrow> PInf | NInf \<Rightarrow> Fin 0
                   | NaN \<Rightarrow> NaN)"

definition range_arith :: float_arith where
  "range_arith = \<lparr>rnd = range_rnd, pow2 = range_pow2\<rparr>"

text \<open>
  Small evolutions on which the theorems below are run: the levels are those allocated by
  \<open>Allocate_Memory_Evolution\<close>, with the detector response of each level set.
\<close>

definition with_Ldet :: "tevolution list \<Rightarrow> Mat list \<Rightarrow> tevolution list" where
  "with_Ldet ev ms = map2 (\<lambda>e m. e\<lparr>Ldet := m\<rparr>) ev ms"

definition mat_of :: "int \<Rightarrow> int \<Rightarrow> (int \<Rightarrow> int \<Rightarrow> real) \<Rightarrow> Mat" where
  "mat_of h w f = \<lparr>rows = h, cols = w, elem = f\<rparr>"

definition dmin0 :: real where
  "dmin0 = 0.00001"


text \<open>Three levels of \<open>3 \<times> 3\<close> pixels; the middle level is a plateau of height 1.\<close>

definition opts_flat :: KAZEOptions where
  "opts_flat = \<lparr>omax = 3, nsublevels = 1, img_width = 3, img_height = 3, soffset = 1.6,
     dthreshold = 0.001, descriptor = 0\<rparr>"

definition ev_flat :: "tevolution list" where
  "ev_flat = with_Ldet (Allocate_Memory_Evolution range_arith opts_flat)
     [zeros 3 3, mat_of 3 3 (\<lambda>i j. 1), zeros 3 3]"

text \<open>
  Four levels of \<open>3 \<times> 7\<close> pixels: level 1 has two peaks of height 1 at columns 1 and 5 of
  row 1, level 2 one peak of height 2 at column 3 of row 1.
\<close>

definition opts_peaks :: KAZEOptions where
  "opts_peaks = \<lparr>omax = 4, nsublevels = 1, img_width = 7, img_height = 3, soffset = 1.6,
     dthreshold = 0.001, descriptor = 0\<rparr>"

definition ev_peaks :: "tevolution list" where
  "ev_peaks = with_Ldet (Allocate_Memory_Evolution range_arith opts_peaks)
     [zeros 3 7,
      mat_of 3 7 (\<lambda>i j. if i = 1 \<and> (j = 1 \<or> j = 5) then 1 else 0),
      mat_of 3 7 (\<lambda>i j. if i = 1 \<and> j = 3 then 2 else 0),
      zeros 3 7]"

definition peak :: "real \<Rightarrow> real \<Rightarrow> real \<Rightarrow> real \<Rightarrow> int \<Rightarrow> KeyPoint" where
  \<comment> \<open>a keypoint at column \<open>x\<close> of row 1, of level \<open>l\<close> (sublevel 0 of octave \<open>l\<close>)\<close>
  "peak x sz a r l =
     \<lparr>pt_x = x, pt_y = 1, size_kp = Fin sz, angle = a, response = r, octave_kp = l, class_id = l\<rparr>"

definition peak_a :: KeyPoint where "peak_a = peak 1 3.2 0 1 1"
definition peak_b :: KeyPoint where "peak_b = peak 5 3.2 0 1 1"
definition peak_c :: KeyPoint where "peak_c = peak 3 6.4 0 2 2"
definition refined_b :: KeyPoint where "refined_b = peak 5 6.4 0 1 1"
definition refined_c :: KeyPoint where "refined_c = peak 3 12.8 0 2 2"

text \<open>
  A level with constant derivative images (\<open>Lx = 1\<close>, \<open>Ly = 0\<close>, \<open>Lxx = 1\<close>, \<open>Lxy = 0\<close>,
  \<open>Lyy = -1\<close>), a keypoint on it, and clipping constants.
\<close>

definition gauge_level :: tevolution where
  "gauge_level = (new_level range_arith opts_flat 1 0)
     \<lparr>Lx := mat_of 3 3 (\<lambda>i j. 1), Lxx := mat_of 3 3 (\<lambda>i j. 1), Lyy := mat_of 3 3 (\<lambda>i j. - 1)\<rparr>"

definition ev_gauge :: "tevolution list" where
  "ev_gauge = [new_level range_arith opts_flat 0 0, gauge_level, new_level range_arith opts_flat 2 0]"

definition kpt_mid :: KeyPoint where
  "kpt_mid = \<lparr>pt_x = 1, pt_y = 1, size_kp = Fin 6.4, angle = 0, response = 1, octave_kp = 1,
     class_id = 1\<rparr>"

definition clip_on :: clipping where
  "clip_on = \<lparr>USE_CLIPPING_NORMALIZATION = True, CLIPPING_NORMALIZATION_NITER = 5,
     CLIPPING_NORMALIZATION_RATIO = 1.6\<rparr>"

text \<open>
  Three levels of \<open>3 \<times> 8\<close> pixels. Level 1 has a peak of height \<open>3/2\<close> at column 1 of
  row 1, with a right neighbour of height 1, and a plateau of height 1 on the columns 5 to 7;
  the pixel of height 2 at column 4 of row 0 keeps column 5 of row 1 from being an extremum.
  Level 2 has height 1 above the peak.
\<close>

definition opts_stale :: KAZEOptions where
  "opts_stale = \<lparr>omax = 3, nsublevels = 1, img_width = 8, img_height = 3, soffset = 1.6,
     dthreshold = 0.001, descriptor = 0\<rparr>"

definition ev_stale :: "tevolution list" where
  "ev_stale = with_Ldet (Allocate_Memory_Evolution range_arith opts_stale)
     [zeros 3 8,
      mat_of 3 8 (\<lambda>i j. if 5 \<le> j \<and> j \<le> 7 then 1
                        else if i = 0 \<and> j = 4 then 2
                        else if i = 1 \<and> j = 1 then 3 / 2
                        else if i = 1 \<and> j = 2 then 1
                        else 0),
      mat_of 3 8 (\<lambda>i j. if i = 1 \<and> j = 1 then 1 else 0)]"

definition stale_a :: KeyPoint where "stale_a = peak 1 3.2 0 (3 / 2) 1"
definition stale_b :: KeyPoint where "stale_b = peak 6 3.2 0 1 1"


text \<open>
  The two keypoints of \<open>ev_stale\<close> after the refinement: both moved by
  \<open>\<delta> = (1/4, 0, 1/4)\<close>; and the second one as the refinement leaves it when it is
  the only keypoint.
\<close>

definition moved :: "real \<Rightarrow> real \<Rightarrow> KeyPoint" where
  "moved x r =
     \<lparr>pt_x = x, pt_y = 1, size_kp = Fin (2 * 1.6 * 2 powr (1 + 1 / 4)), angle = 0,
      response = r, octave_kp = 1, class_id = 1\<rparr>"

definition moved_a :: KeyPoint where "moved_a = moved (5 / 4) (3 / 2)"
definition moved_b :: KeyPoint where "moved_b = moved (25 / 4) 1"
definition alone_b :: KeyPoint where "alone_b = peak 6 6.4 0 1 1"

section \<open>Verification: the evolution levels\<close>











lemma fl_le_trans: "fl_le a b \<Longrightarrow> fl_le b c \<Longrightarrow> fl_le a c"
  by (cases a; cases b; cases c) simp_all










lemma float_overflow_big: "16777216 < float_overflow"
  by (simp add: float_overflow_def)


lemma range_pow2_Fin:
  "pow2 range_arith (Fin x) = (if float_overflow \<le> 2 powr x then PInf else Fin (2 powr x))"
proof -
  have "0 < (2::real) powr x" by simp
  moreover have "- float_overflow < 0" using float_overflow_big by linarith
  ultimately have "\<not> 2 powr x \<le> - float_overflow" by linarith
  then show ?thesis by (simp add: range_arith_def range_pow2_def range_rnd_def)
qed




section \<open>Verification: extremum detection\<close>

lemma fold_invariant:
  assumes "\<And>x s. I s \<Longrightarrow> I (f x s)" and "I s"
  shows "I (fold f xs s)"
  using assms(2) by (induction xs arbitrary: s) (simp_all add: assms(1))

lemma fold_append_at:
  "fold (\<lambda>x kp. if P x then kp[n := kp ! n @ [f x]] else kp) xs kp
     = kp[n := kp ! n @ map f (filter P xs)]"
proof (induction xs arbitrary: kp)
  case Nil
  show ?case by simp
next
  case (Cons x xs)
  show ?case
    by (cases "n < length kp") (simp_all add: Cons.IH list_update_beyond)
qed

lemma fold_append_blocks:
  "fold (\<lambda>x kp. kp[n := kp ! n @ g x]) xs kp = kp[n := kp ! n @ concat (map g xs)]"
proof (induction xs arbitrary: kp)
  case Nil
  show ?case by simp
next
  case (Cons x xs)
  show ?case
    by (cases "n < length kp") (simp_all add: Cons.IH list_update_beyond)
qed

lemma is_extremum_at_accepted:
  "is_extremum_at cmn dmin opt ev level ix jx = accepted cmn dmin opt ev level ix jx"
  by (auto simp: is_extremum_at_def accepted_def Let_def)

lemma Find_Extremum_Threading_eq:
  "Find_Extremum_Threading cmn dmin opt ev level kpts_par =
     kpts_par[nat (level - 1) := kpts_par ! nat (level - 1) @
       concat (map (\<lambda>ix. map (new_point ev level ix)
                 (filter (is_extremum_at cmn dmin opt ev level ix) [1 .. img_width opt - 2]))
         [1 .. img_height opt - 2])]"
proof -
  have inner: "\<And>ix kp. fold (\<lambda>jx kp.
         if is_extremum_at cmn dmin opt ev level ix jx
         then kp[nat (level - 1) := kp ! nat (level - 1) @ [new_point ev level ix jx]]
         else kp) [1 .. img_width opt - 2] kp
       = kp[nat (level - 1) := kp ! nat (level - 1) @ map (new_point ev level ix)
                 (filter (is_extremum_at cmn dmin opt ev level ix) [1 .. img_width opt - 2])]"
    by (rule fold_append_at)
  show ?thesis
    unfolding Find_Extremum_Threading_def inner
    by (rule fold_append_blocks)
qed

text \<open>
  Claim C1, as amended. At an interior level, \<open>Find_Extremum_Threading\<close> appends to
  \<open>kpts_par[level-1]\<close>, in raster order, a keypoint for exactly the interior pixels whose
  response exceeds \<open>dthreshold\<close>, is at least the minimum threshold, is greater than or equal
  to the left neighbour of the same level (the comparison is not strict), and passes the
  neighbourhood check on the level itself and on the levels below and above.
\<close>

theorem extremum_acceptance:
  "Find_Extremum_Threading cmn dmin opt ev level kpts_par =
     kpts_par[nat (level - 1) := kpts_par ! nat (level - 1) @
       concat (map (\<lambda>ix. map (new_point ev level ix)
                 (filter (accepted cmn dmin opt ev level ix) [1 .. img_width opt - 2]))
         [1 .. img_height opt - 2])]"
proof -
  have "is_extremum_at cmn dmin opt ev level = accepted cmn dmin opt ev level"
    by (simp add: fun_eq_iff is_extremum_at_accepted)
  then show ?thesis by (simp only: Find_Extremum_Threading_eq)
qed

lemma Find_Extremum_Threading_emitted:
  assumes "\<forall>ks \<in> set kp. \<forall>k \<in> set ks. emitted cmn dmin opt ev k"
  shows "\<forall>ks \<in> set (Find_Extremum_Threading cmn dmin opt ev level kp). \<forall>k \<in> set ks.
           emitted cmn dmin opt ev k"
proof (cases "nat (level - 1) < length kp")
  case False
  then show ?thesis using assms by (simp add: Find_Extremum_Threading_eq list_update_beyond)
next
  case True
  let ?new = "concat (map (\<lambda>ix. map (new_point ev level ix)
                 (filter (is_extremum_at cmn dmin opt ev level ix) [1 .. img_width opt - 2]))
         [1 .. img_height opt - 2])"
  have new: "\<forall>k \<in> set ?new. emitted cmn dmin opt ev k"
    by (auto simp: emitted_def)
  have old: "\<forall>k \<in> set (kp ! nat (level - 1)). emitted cmn dmin opt ev k"
    using assms nth_mem [OF True] by blast
  show ?thesis
  proof (intro ballI)
    fix ks k
    assume ks: "ks \<in> set (Find_Extremum_Threading cmn dmin opt ev level kp)" and k: "k \<in> set ks"
    from ks have "ks \<in> insert (kp ! nat (level - 1) @ ?new) (set kp)"
      unfolding Find_Extremum_Threading_eq using set_update_subset_insert by fastforce
    then show "emitted cmn dmin opt ev k"
      using k new old assms by auto
  qed
qed

lemma find_candidates_emitted:
  "\<forall>ks \<in> set (find_candidates cmn dmin opt ev). \<forall>k \<in> set ks. emitted cmn dmin opt ev k"
proof -
  have init: "\<And>is kp. fold (\<lambda>i kp. kp @ [[]]) is kp = kp @ replicate (length is) ([] :: KeyPoint list)"
    subgoal for "is" kp by (induction "is" arbitrary: kp) (simp_all add: replicate_app_Cons_same)
    done
  have run: "\<And>is kp. (\<forall>ks \<in> set kp. \<forall>k \<in> set ks. emitted cmn dmin opt ev k) \<Longrightarrow>
      \<forall>ks \<in> set (fold (\<lambda>i kp. Find_Extremum_Threading cmn dmin opt ev (int i) kp) is kp).
         \<forall>k \<in> set ks. emitted cmn dmin opt ev k"
    subgoal for "is" kp
      by (rule fold_invariant [where I = "\<lambda>kp. \<forall>ks \<in> set kp. \<forall>k \<in> set ks. emitted cmn dmin opt ev k"])
         (rule Find_Extremum_Threading_emitted)
    done
  have "\<forall>ks \<in> set (fold (\<lambda>i kp. kp @ [[]]) [1 ..< length ev - 1] []). ks = ([] :: KeyPoint list)"
    by (simp add: init)
  then have "\<forall>ks \<in> set (fold (\<lambda>i kp. kp @ [[]]) [1 ..< length ev - 1] []).
               \<forall>k \<in> set ks. emitted cmn dmin opt ev k"
    by auto
  then show ?thesis
    unfolding find_candidates_def Let_def by (rule run)
qed

lemma c_int_of_int: "c_int (real_of_int n) = n"
  by (simp add: c_int_def)

lemma emitted_thresholds:
  assumes "emitted cmn dmin opt ev k"
  shows "elem (Ldet (level_at ev (class_id k))) (c_int (pt_y k)) (c_int (pt_x k)) > dthreshold opt
       \<and> elem (Ldet (level_at ev (class_id k))) (c_int (pt_y k)) (c_int (pt_x k)) \<ge> dmin
       \<and> response k = \<bar>elem (Ldet (level_at ev (class_id k))) (c_int (pt_y k)) (c_int (pt_x k))\<bar>"
  using assms
  by (auto simp: emitted_def new_point_def c_int_of_int is_extremum_at_def Let_def split: if_splits)

section \<open>Verification: cross-level selection\<close>

lemma in_conflict_iff:
  "in_conflict ev level cand k \<longleftrightarrow>
     near_level k level \<and>
     dist2 cand k < real_of_int (sigma_size (level_at ev level) * sigma_size (level_at ev level))"
  by (auto simp: in_conflict_def near_level_def power2_eq_square)

lemma scan_kpts_first_index:
  "scan_kpts ev level cand kpts ik st =
     (case first_index (in_conflict ev level cand) (drop ik kpts) of
        None \<Rightarrow> st
      | Some i \<Rightarrow>
          if response cand > response (kpts ! (ik + i))
          then st\<lparr>id_repeated := ik + i, is_repeated := True\<rparr>
          else st\<lparr>is_extremum := False\<rparr>)"
proof (induction ev level cand kpts ik st rule: scan_kpts.induct)
  case (1 ev level cand kpts ik st)
  show ?case
  proof (cases "ik < length kpts")
    case False
    then show ?thesis by (subst scan_kpts.simps) simp
  next
    case True
    then have d: "drop ik kpts = kpts ! ik # drop (Suc ik) kpts"
      by (simp add: Cons_nth_drop_Suc)
    show ?thesis
    proof (cases "in_conflict ev level cand (kpts ! ik)")
      case c: True
      then show ?thesis using True c [unfolded in_conflict_iff]
        by (subst scan_kpts.simps) (simp add: d c)
    next
      case c: False
      have "scan_kpts ev level cand kpts ik st = scan_kpts ev level cand kpts (ik + 1) st"
        using True c [unfolded in_conflict_iff] by (subst scan_kpts.simps) auto
      also have "\<dots> = (case first_index (in_conflict ev level cand) (drop (ik + 1) kpts) of
          None \<Rightarrow> st
        | Some i \<Rightarrow>
          if response cand > response (kpts ! (ik + 1 + i))
          then st\<lparr>id_repeated := ik + 1 + i, is_repeated := True\<rparr>
          else st\<lparr>is_extremum := False\<rparr>)"
        using True c [unfolded in_conflict_iff] "1.IH" by blast
      finally show ?thesis using c
        by (simp add: d split: option.splits)
    qed
  qed
qed

lemma merge_candidate_spec:
  "merge_candidate ev level cand kpts = dedup_spec ev level cand kpts"
  by (simp add: merge_candidate_def dedup_spec_def scan_kpts_first_index Let_def
      split: option.splits)

lemma fold_nth: "fold (\<lambda>j. h (xs ! j)) [0 ..< length xs] = fold h xs"
proof -
  have "fold (\<lambda>j. h (xs ! j)) [0 ..< length xs] = fold h (map ((!) xs) [0 ..< length xs])"
    by (simp add: fold_map o_def)
  then show ?thesis by (simp add: map_nth)
qed

lemma merge_levels_fold:
  "merge_levels ev kpts_par kpts =
     fold (\<lambda>(level, cand). merge_candidate ev level cand) (level_order kpts_par) kpts"
proof -
  have inner: "\<And>i. fold (\<lambda>j. merge_candidate ev (int i + 1) (kpts_par ! i ! j))
                    [0 ..< length (kpts_par ! i)]
              = fold (\<lambda>(level, cand). merge_candidate ev level cand)
                    (map (\<lambda>c. (int i + 1, c)) (kpts_par ! i))"
    by (simp add: fold_nth [of "merge_candidate ev (int i + 1)" for i] fold_map o_def)
  have outer: "\<And>g is k. fold (\<lambda>(level, cand). merge_candidate ev level cand) (concat (map g is)) k
       = fold (\<lambda>i. fold (\<lambda>(level, cand). merge_candidate ev level cand) (g i)) is k"
    subgoal for g "is" k by (induction "is" arbitrary: k) simp_all
    done
  show ?thesis
    unfolding merge_levels_def level_order_def outer
    by (simp only: inner)
qed

text \<open>
  Claim C5. The selection runs through the candidates in level order; for each one, the first
  accepted keypoint whose \<open>class_id\<close> is within one of the candidate's level and whose squared
  distance to the candidate is below \<open>sigma_size[level]\<^sup>2\<close> decides: the candidate replaces it
  in place when its response is strictly larger and is dropped otherwise (so the accepted
  keypoint wins a tie); with no such keypoint the candidate is appended.
\<close>

theorem cross_level_dedup:
  "merge_levels ev kpts_par kpts =
     fold (\<lambda>(level, cand). dedup_spec ev level cand) (level_order kpts_par) kpts"
proof -
  have "(\<lambda>(level, cand). merge_candidate ev level cand) = (\<lambda>(level, cand). dedup_spec ev level cand)"
    by (simp add: fun_eq_iff merge_candidate_spec)
  then show ?thesis by (simp only: merge_levels_fold)
qed

lemma dedup_spec_cases:
  "dedup_spec ev level cand kpts = kpts @ [cand] \<and> (\<forall>k \<in> set kpts. \<not> in_conflict ev level cand k)
   \<or> length (dedup_spec ev level cand kpts) = length kpts
      \<and> set (dedup_spec ev level cand kpts) \<subseteq> insert cand (set kpts)"
proof (cases "first_index (in_conflict ev level cand) kpts")
  case None
  have "\<And>P xs. first_index P xs = None \<Longrightarrow> \<forall>x \<in> set xs. \<not> P x"
    subgoal for P xs by (induction xs) (auto split: if_splits)
    done
  with None show ?thesis by (simp add: dedup_spec_def)
next
  case (Some i)
  then show ?thesis
    using set_update_subset_insert [of kpts i cand] by (auto simp: dedup_spec_def)
qed

lemma merge_candidate_set:
  "set (merge_candidate ev level cand kpts) \<subseteq> insert cand (set kpts)"
  using dedup_spec_cases [of ev level cand kpts] by (auto simp: merge_candidate_spec)

lemma merge_levels_preserves:
  assumes par: "\<forall>ks \<in> set kpts_par. \<forall>k \<in> set ks. R k" and init: "\<forall>k \<in> set kpts. R k"
  shows "\<forall>k \<in> set (merge_levels ev kpts_par kpts). R k"
proof -
  have cands: "\<forall>(l, c) \<in> set (level_order kpts_par). R c"
    using par by (auto simp: level_order_def)
  have "\<And>lc kpts. \<forall>(l, c) \<in> set lc. R c \<Longrightarrow> \<forall>k \<in> set kpts. R k \<Longrightarrow>
          \<forall>k \<in> set (fold (\<lambda>(level, cand). merge_candidate ev level cand) lc kpts). R k"
    subgoal for lc kpts
    proof (induction lc arbitrary: kpts)
      case Nil
      then show ?case by simp
    next
      case (Cons a lc)
      obtain l c where a: "a = (l, c)" by (cases a)
      have "\<forall>k \<in> set (merge_candidate ev l c kpts). R k"
        using merge_candidate_set [of ev l c kpts] Cons.prems a by auto
      then show ?case using Cons.IH Cons.prems(1) a by simp
    qed
    done
  from this [OF cands init] show ?thesis by (simp add: merge_levels_fold)
qed

section \<open>Verification: sub-pixel refinement\<close>

lemma subpixel_system_central:
  "subpixel_system ev k =
     (central_hessian (response_volume ev) (c_int (pt_x k)) (c_int (pt_y k)) (class_id k),
      (case central_gradient (response_volume ev) (c_int (pt_x k)) (c_int (pt_y k)) (class_id k)
       of (gx, gy, gs) \<Rightarrow> (- gx, - gy, - gs)))"
  by (simp add: subpixel_system_def central_hessian_def central_gradient_def
      response_volume_def Let_def field_simps)

lemma refine_point_spec:
  "refine_point solve opt ev dst k =
     (let d = solve (central_hessian (response_volume ev) (c_int (pt_x k)) (c_int (pt_y k))
                       (class_id k))
                (case central_gradient (response_volume ev) (c_int (pt_x k)) (c_int (pt_y k))
                        (class_id k)
                 of (gx, gy, gs) \<Rightarrow> (- gx, - gy, - gs))
                dst
      in (d, refine_spec opt k d))"
proof (cases k)
  case (fields px py sz an re oc cl)
  obtain gx gy gs where
    g: "central_gradient (response_volume ev) (c_int px) (c_int py) cl = (gx, gy, gs)"
    by (metis prod_cases3)
  obtain d0 d1 d2 where
    d: "solve (central_hessian (response_volume ev) (c_int px) (c_int py) cl) (- gx, - gy, - gs) dst
          = (d0, d1, d2)"
    by (metis prod_cases3)
  show ?thesis
    by (simp add: fields refine_point_def refine_spec_def Let_def subpixel_system_central g d
        max.bounded_iff)
qed

lemma refine_all_Cons:
  "refine_all solve opt ev dst (k # ks) =
     (case snd (refine_point solve opt ev dst k) of Some k' \<Rightarrow> [k'] | None \<Rightarrow> [])
     @ refine_all solve opt ev (fst (refine_point solve opt ev dst k)) ks"
  by (simp add: refine_point_spec Let_def)

lemma refine_loop_all:
  "refine_loop solve opt ev i dst kpts
     = take i kpts @ refine_all solve opt ev dst (drop i kpts)"
proof (induction solve opt ev i dst kpts rule: refine_loop.induct)
  case (1 solve opt ev i dst kpts)
  show ?case
  proof (cases "i < length kpts")
    case False
    then show ?thesis by (subst refine_loop.simps) simp
  next
    case True
    then have d: "drop i kpts = kpts ! i # drop (Suc i) kpts"
      by (simp add: Cons_nth_drop_Suc)
    obtain dst' r where p: "refine_point solve opt ev dst (kpts ! i) = (dst', r)"
      by (cases "refine_point solve opt ev dst (kpts ! i)")
    show ?thesis
    proof (cases r)
      case None
      have "refine_loop solve opt ev i dst kpts = refine_loop solve opt ev i dst' (erase kpts i)"
        using True None p by (subst refine_loop.simps) simp
      also have "\<dots> = take i (erase kpts i)
                  @ refine_all solve opt ev dst' (drop i (erase kpts i))"
        using "1.IH"(1) [OF True p [unfolded None, symmetric] refl] .
      also have "take i (erase kpts i) = take i kpts"
        using True by (simp add: erase_def)
      also have "drop i (erase kpts i) = drop (Suc i) kpts"
        using True by (simp add: erase_def)
      finally show ?thesis using None p by (simp add: d refine_all_Cons del: refine_all.simps)
    next
      case (Some k)
      have "refine_loop solve opt ev i dst kpts
              = refine_loop solve opt ev (i + 1) dst' (kpts[i := k])"
        using True Some p by (subst refine_loop.simps) simp
      also have "\<dots> = take (i + 1) (kpts[i := k])
                  @ refine_all solve opt ev dst' (drop (i + 1) (kpts[i := k]))"
        using "1.IH"(2) [OF True p [unfolded Some, symmetric] refl] .
      also have "take (i + 1) (kpts[i := k]) = take i kpts @ [k]"
        using True by (simp add: take_Suc_conv_app_nth)
      finally show ?thesis using Some p by (simp add: d refine_all_Cons del: refine_all.simps)
    qed
  qed
qed

lemma Do_Subpixel_Refinement_all:
  "Do_Subpixel_Refinement solve opt ev kpts = refine_all solve opt ev (0, 0, 0) kpts"
  by (simp add: Do_Subpixel_Refinement_def refine_loop_all)

lemma refine_spec_keeps:
  "refine_spec opt k d = Some k' \<Longrightarrow> response k' = response k \<and> class_id k' = class_id k"
  by (cases d) (auto simp: refine_spec_def split: if_splits)

lemma refine_all_response:
  "k' \<in> set (refine_all solve opt ev dst kpts)
     \<Longrightarrow> \<exists>k \<in> set kpts. response k' = response k \<and> class_id k' = class_id k"
proof (induction kpts arbitrary: dst)
  case Nil
  then show ?case by simp
next
  case (Cons k ks)
  obtain dst' where e: "refine_all solve opt ev dst (k # ks) =
      (case refine_spec opt k dst' of Some k' \<Rightarrow> [k'] | None \<Rightarrow> [])
      @ refine_all solve opt ev dst' ks"
    by (simp add: Let_def)
  from Cons.prems [unfolded e] consider
      "k' \<in> set (case refine_spec opt k dst' of Some k' \<Rightarrow> [k'] | None \<Rightarrow> [])"
    | "k' \<in> set (refine_all solve opt ev dst' ks)"
    by auto
  then show ?case
  proof cases
    case 1
    then have "refine_spec opt k dst' = Some k'" by (auto split: option.splits)
    then show ?thesis using refine_spec_keeps by auto
  next
    case 2
    then show ?thesis using Cons.IH by auto
  qed
qed

lemma Do_Subpixel_Refinement_response:
  assumes "k' \<in> set (Do_Subpixel_Refinement solve opt ev kpts)"
  shows "\<exists>k \<in> set kpts. response k' = response k \<and> class_id k' = class_id k"
  using assms refine_all_response by (simp add: Do_Subpixel_Refinement_all)

section \<open>Verification: the AOS step\<close>

lemma set_elem_simps [simp]:
  "rows (set_elem m i j v) = rows m"
  "cols (set_elem m i j v) = cols m"
  "elem (set_elem m i j v) i' j' = (if i' = i \<and> j' = j then v else elem m i' j')"
  by (simp_all add: set_elem_def)

lemma zeros_simps [simp]:
  "rows (zeros r c) = r" "cols (zeros r c) = c" "elem (zeros r c) i j = 0"
  by (simp_all add: zeros_def)

lemma mat_map_simps [simp]:
  "rows (mat_map f m) = rows m" "cols (mat_map f m) = cols m"
  "elem (mat_map f m) i j = f (elem m i j)"
  by (simp_all add: mat_map_def)

lemma mat_t_simps [simp]:
  "rows (mat_t m) = cols m" "cols (mat_t m) = rows m" "elem (mat_t m) i j = elem m j i"
  by (simp_all add: mat_t_def)

lemma mat_add_simps [simp]:
  "rows (mat_add a b) = rows a" "cols (mat_add a b) = cols a"
  "elem (mat_add a b) i j = elem a i j + elem b i j"
  by (simp_all add: mat_add_def)

text \<open>A loop that writes one row, reading the matrix it writes on other rows only.\<close>

lemma fold_set_row:
  assumes stable: "\<And>X j' v j. g (set_elem X r j' v) j = g X j"
  shows "rows (fold (\<lambda>j X. set_elem X r j (g X j)) js X) = rows X
       \<and> cols (fold (\<lambda>j X. set_elem X r j (g X j)) js X) = cols X
       \<and> elem (fold (\<lambda>j X. set_elem X r j (g X j)) js X) i j'
           = (if i = r \<and> j' \<in> set js then g X j' else elem X i j')"
proof (induction js arbitrary: X)
  case Nil
  show ?case by simp
next
  case (Cons j js)
  show ?case
    using Cons.IH [of "set_elem X r j (g X j)"] by (auto simp: stable)
qed

lemma fold_set_col:
  assumes stable: "\<And>X i' v i. g (set_elem X i' r v) i = g X i"
  shows "rows (fold (\<lambda>i X. set_elem X i r (g X i)) rws X) = rows X
       \<and> cols (fold (\<lambda>i X. set_elem X i r (g X i)) rws X) = cols X
       \<and> elem (fold (\<lambda>i X. set_elem X i r (g X i)) rws X) i' j
           = (if j = r \<and> i' \<in> set rws then g X i' else elem X i' j)"
proof (induction rws arbitrary: X)
  case Nil
  show ?case by simp
next
  case (Cons i rws)
  show ?case
    using Cons.IH [of "set_elem X i r (g X i)"] by (auto simp: stable)
qed

text \<open>Nested loops that fill a block with values that do not depend on the matrix.\<close>

lemma fold_set_block:
  "rows (fold (\<lambda>i X. fold (\<lambda>j X. set_elem X i j (g i j)) js X) rws X) = rows X
   \<and> cols (fold (\<lambda>i X. fold (\<lambda>j X. set_elem X i j (g i j)) js X) rws X) = cols X
   \<and> elem (fold (\<lambda>i X. fold (\<lambda>j X. set_elem X i j (g i j)) js X) rws X) i' j'
       = (if i' \<in> set rws \<and> j' \<in> set js then g i' j' else elem X i' j')"
proof (induction rws arbitrary: X)
  case Nil
  show ?case by simp
next
  case (Cons i rws)
  have row: "\<And>X i' j'. rows (fold (\<lambda>j X. set_elem X i j (g i j)) js X) = rows X
       \<and> cols (fold (\<lambda>j X. set_elem X i j (g i j)) js X) = cols X
       \<and> elem (fold (\<lambda>j X. set_elem X i j (g i j)) js X) i' j'
           = (if i' = i \<and> j' \<in> set js then g i j' else elem X i' j')"
    by (rule fold_set_row [where g = "\<lambda>X. g i"]) simp
  show ?case
    using Cons.IH [of "fold (\<lambda>j X. set_elem X i j (g i j)) js X"] by (auto simp: row)
qed

lemma fold_set_block_cols:
  "rows (fold (\<lambda>j X. fold (\<lambda>i X. set_elem X i j (g i j)) rws X) js X) = rows X
   \<and> cols (fold (\<lambda>j X. fold (\<lambda>i X. set_elem X i j (g i j)) rws X) js X) = cols X
   \<and> elem (fold (\<lambda>j X. fold (\<lambda>i X. set_elem X i j (g i j)) rws X) js X) i' j'
       = (if i' \<in> set rws \<and> j' \<in> set js then g i' j' else elem X i' j')"
proof (induction js arbitrary: X)
  case Nil
  show ?case by simp
next
  case (Cons j js)
  have col: "\<And>X i' j'. rows (fold (\<lambda>i X. set_elem X i j (g i j)) rws X) = rows X
       \<and> cols (fold (\<lambda>i X. set_elem X i j (g i j)) rws X) = cols X
       \<and> elem (fold (\<lambda>i X. set_elem X i j (g i j)) rws X) i' j'
           = (if j' = j \<and> i' \<in> set rws then g i' j else elem X i' j')"
    by (rule fold_set_col [where g = "\<lambda>X i. g i j"]) simp
  show ?case
    using Cons.IH [of "fold (\<lambda>i X. set_elem X i j (g i j)) rws X"] by (auto simp: col)
qed

lemma forward_step_inv:
  assumes inv: "fwd_inv a b Ld w (k - 1) s" and k: "1 \<le> k"
  shows "fwd_inv a b Ld w k (forward_step a b Ld k s)"
proof -
  obtain l m y where s: "s = (l, m, y)" by (cases s)
  from inv have c: "cols l = w" "cols m = w" "cols y = w"
    and old: "\<And>j k'. 0 \<le> j \<Longrightarrow> j < w \<Longrightarrow> 0 \<le> k' \<Longrightarrow> k' \<le> k - 1 \<Longrightarrow>
        elem m k' j = pivot (elem a) (elem b) j (nat k')
      \<and> elem y k' j = forward (elem a) (elem b) (elem Ld) j (nat k')"
    by (auto simp: fwd_inv_def s)
  define l1 where "l1 = fold (\<lambda>j l. set_elem l (k - 1) j (elem b (k - 1) j / elem m (k - 1) j))
               [0 .. cols l - 1] l"
  define m1 where "m1 = fold (\<lambda>j m. set_elem m k j (elem a k j - elem l1 (k - 1) j * elem b (k - 1) j))
               [0 .. cols m - 1] m"
  define y1 where "y1 = fold (\<lambda>j y. set_elem y k j (elem Ld k j - elem l1 (k - 1) j * elem y (k - 1) j))
               [0 .. cols y - 1] y"
  have step: "forward_step a b Ld k s = (l1, m1, y1)"
    by (simp add: forward_step_def s Let_def l1_def m1_def y1_def)
  have L: "cols l1 = w"
    "\<And>i j. elem l1 i j = (if i = k - 1 \<and> 0 \<le> j \<and> j < w
        then elem b (k - 1) j / elem m (k - 1) j else elem l i j)"
    using fold_set_row [where g = "\<lambda>X j. elem b (k - 1) j / elem m (k - 1) j" and r = "k - 1"
        and js = "[0 .. cols l - 1]" and X = l]
    by (auto simp: l1_def c)
  have M: "cols m1 = w"
    "\<And>i j. elem m1 i j = (if i = k \<and> 0 \<le> j \<and> j < w
        then elem a k j - elem l1 (k - 1) j * elem b (k - 1) j else elem m i j)"
    using fold_set_row [where g = "\<lambda>X j. elem a k j - elem l1 (k - 1) j * elem b (k - 1) j"
        and r = k and js = "[0 .. cols m - 1]" and X = m]
    by (auto simp: m1_def c)
  have Y: "cols y1 = w"
    "\<And>i j. elem y1 i j = (if i = k \<and> 0 \<le> j \<and> j < w
        then elem Ld k j - elem l1 (k - 1) j * elem y (k - 1) j else elem y i j)"
    using fold_set_row [where g = "\<lambda>X j. elem Ld k j - elem l1 (k - 1) j * elem X (k - 1) j"
        and r = k and js = "[0 .. cols y - 1]" and X = y]
    by (auto simp: y1_def c)
  have new: "elem m1 k' j = pivot (elem a) (elem b) j (nat k')
      \<and> elem y1 k' j = forward (elem a) (elem b) (elem Ld) j (nat k')"
    if j: "0 \<le> j" "j < w" and k': "0 \<le> k'" "k' \<le> k" for j k'
  proof (cases "k' = k")
    case False
    then have "k' \<le> k - 1" using k' by simp
    from old [OF j k'(1) this] False show ?thesis by (simp add: M Y)
  next
    case True
    obtain kn where kn: "k = int (Suc kn)"
      using k by (metis nat_0_le not_one_le_zero old.nat.exhaust of_nat_0 order_trans zero_le_one)
    then have km: "k - 1 = int kn" by simp
    from old [OF j, of "k - 1"] k
    have prev: "elem m (int kn) j = pivot (elem a) (elem b) j kn"
      "elem y (int kn) j = forward (elem a) (elem b) (elem Ld) j kn"
      by (simp_all add: km)
    have "elem m1 k j = pivot (elem a) (elem b) j (Suc kn)"
      using j by (simp add: M L km prev) (simp add: kn)
    moreover have "elem y1 k j = forward (elem a) (elem b) (elem Ld) j (Suc kn)"
      using j by (simp add: Y L km prev) (simp add: kn)
    moreover have "nat k = Suc kn" by (simp add: kn)
    ultimately show ?thesis
      unfolding True by (simp only: simp_thms)
  qed
  show ?thesis
    unfolding step fwd_inv_def using L(1) M(1) Y(1) new by simp
qed

lemma forward_loop_inv:
  assumes "fwd_inv a b Ld w (K - 1) s" and "1 \<le> K"
  shows "fwd_inv a b Ld w (max (K - 1) N) (fold (forward_step a b Ld) [K .. N] s)"
  using assms
proof (induction "nat (N + 1 - K)" arbitrary: K s)
  case 0
  then have "[K .. N] = []" "max (K - 1) N = K - 1" by simp_all
  then show ?case using "0.prems" by simp
next
  case (Suc d)
  then have le: "K \<le> N" by simp
  then have split: "[K .. N] = K # [K + 1 .. N]" by (rule upto_rec1)
  have step: "fwd_inv a b Ld w K (forward_step a b Ld K s)"
    by (rule forward_step_inv) (use Suc.prems in simp_all)
  have "fwd_inv a b Ld w (max (K + 1 - 1) N)
          (fold (forward_step a b Ld) [K + 1 .. N] (forward_step a b Ld K s))"
    by (rule Suc.hyps(1)) (use Suc.hyps(2) Suc.prems step in simp_all)
  moreover have "max (K + 1 - 1) N = max (K - 1) N" using le by simp
  ultimately show ?case by (simp add: split)
qed

lemma backward_step_inv:
  assumes inv: "bwd_inv a b Ld x0 w (i + 1) x"
    and my: "\<And>j k. 0 \<le> j \<Longrightarrow> j < w \<Longrightarrow> 0 \<le> k \<Longrightarrow> k \<le> rows a - 1 \<Longrightarrow>
        elem m k j = pivot (elem a) (elem b) j (nat k)
      \<and> elem y k j = forward (elem a) (elem b) (elem Ld) j (nat k)"
    and i: "0 \<le> i" "i \<le> rows a - 2"
  shows "bwd_inv a b Ld x0 w i (backward_step b m y i x)"
proof -
  from inv have c: "cols x = w" "rows x = rows x0"
    and old: "\<And>j i'. 0 \<le> j \<Longrightarrow> j < w \<Longrightarrow> i + 1 \<le> i' \<Longrightarrow> i' \<le> rows a - 1 \<Longrightarrow>
        elem x i' j = thomas_solution (elem a) (elem b) (elem Ld) (rows a) i' j"
    by (auto simp: bwd_inv_def)
  have X: "cols (backward_step b m y i x) = w" "rows (backward_step b m y i x) = rows x0"
    "\<And>i' j. elem (backward_step b m y i x) i' j = (if i' = i \<and> 0 \<le> j \<and> j < w
        then (elem y i j - elem b i j * elem x (i + 1) j) / elem m i j else elem x i' j)"
    using fold_set_row [where g = "\<lambda>X j. (elem y i j - elem b i j * elem X (i + 1) j) / elem m i j"
        and r = i and js = "[0 .. cols x - 1]" and X = x]
    by (auto simp: backward_step_def c)
  have new: "elem (backward_step b m y i x) i' j
      = thomas_solution (elem a) (elem b) (elem Ld) (rows a) i' j"
    if j: "0 \<le> j" "j < w" and i': "i \<le> i'" "i' \<le> rows a - 1" for j i'
  proof (cases "i' = i")
    case False
    then have "i + 1 \<le> i'" using i' by simp
    from old [OF j this i'(2)] False show ?thesis by (simp add: X)
  next
    case True
    obtain r where r: "rows a - 2 - i = int r"
      using i by (metis diff_ge_0_iff_ge nat_0_le)
    then have n1: "nat (rows a - 1 - i) = Suc r" "nat (rows a - 1 - (i + 1)) = r"
      and n2: "nat (rows a) - 2 - r = nat i" by linarith+
    have e: "rows a - 1 - (i + 1) = int r" "rows a - 1 - i = int (Suc r)" using r by simp_all
    have "elem x (i + 1) j = thomas_solution (elem a) (elem b) (elem Ld) (rows a) (i + 1) j"
      using old [OF j, of "i + 1"] i by simp
    also have "\<dots> = backward (elem a) (elem b) (elem Ld) (nat (rows a)) j r"
      unfolding thomas_solution_def e by simp
    finally have next_row:
      "elem x (i + 1) j = backward (elem a) (elem b) (elem Ld) (nat (rows a)) j r" .
    have sol: "thomas_solution (elem a) (elem b) (elem Ld) (rows a) i j
        = (forward (elem a) (elem b) (elem Ld) j (nat i)
            - elem b (int (nat i)) j * backward (elem a) (elem b) (elem Ld) (nat (rows a)) j r)
          / pivot (elem a) (elem b) j (nat i)"
      by (simp only: thomas_solution_def n1 backward.simps n2)
    have here: "elem m i j = pivot (elem a) (elem b) j (nat i)"
      "elem y i j = forward (elem a) (elem b) (elem Ld) j (nat i)"
      using my [OF j, of i] i by simp_all
    show ?thesis
      using j i by (simp add: True X sol n2 next_row here)
  qed
  show ?thesis
    unfolding bwd_inv_def using X(1,2) new by simp
qed

lemma backward_loop_inv:
  assumes "bwd_inv a b Ld x0 w (I + 1) x"
    and my: "\<And>j k. 0 \<le> j \<Longrightarrow> j < w \<Longrightarrow> 0 \<le> k \<Longrightarrow> k \<le> rows a - 1 \<Longrightarrow>
        elem m k j = pivot (elem a) (elem b) j (nat k)
      \<and> elem y k j = forward (elem a) (elem b) (elem Ld) j (nat k)"
    and "- 1 \<le> I" "I \<le> rows a - 2"
  shows "bwd_inv a b Ld x0 w 0 (fold (backward_step b m y) (rev [0 .. I]) x)"
  using assms(1,3,4)
proof (induction "nat (I + 1)" arbitrary: I x)
  case 0
  then have "I = - 1" by simp
  then show ?case using "0.prems" by simp
next
  case (Suc d)
  then have I: "0 \<le> I" by simp
  then have split: "rev [0 .. I] = I # rev [0 .. I - 1]" by (simp add: upto_rec2)
  have step: "bwd_inv a b Ld x0 w I (backward_step b m y I x)"
    by (rule backward_step_inv [OF Suc.prems(1) my]) (use I Suc.prems in simp_all)
  have "bwd_inv a b Ld x0 w 0 (fold (backward_step b m y) (rev [0 .. I - 1]) (backward_step b m y I x))"
    by (rule Suc.hyps(1)) (use Suc.hyps(2) Suc.prems step I in simp_all)
  then show ?case by (simp add: split)
qed

lemma Thomas_solution:
  assumes n: "1 \<le> rows a" and dims: "cols a = w" "cols b = w" "cols Ld = w" "cols x = w"
  shows "bwd_inv a b Ld x w 0 (Thomas a b Ld x)"
proof -
  define m0 where "m0 = fold (\<lambda>j m. set_elem m 0 j (elem a 0 j)) [0 .. cols a - 1]
      (zeros (rows a) (cols a))"
  define y0 where "y0 = fold (\<lambda>j y. set_elem y 0 j (elem Ld 0 j)) [0 .. cols Ld - 1]
      (zeros (rows Ld) (cols Ld))"
  define l0 where "l0 = zeros (rows b) (cols b)"
  have M0: "cols m0 = w" "\<And>j. 0 \<le> j \<Longrightarrow> j < w \<Longrightarrow> elem m0 0 j = elem a 0 j"
    using fold_set_row [where g = "\<lambda>X j. elem a 0 j" and r = 0 and js = "[0 .. cols a - 1]"
        and X = "zeros (rows a) (cols a)"]
    by (auto simp: m0_def dims)
  have Y0: "cols y0 = w" "\<And>j. 0 \<le> j \<Longrightarrow> j < w \<Longrightarrow> elem y0 0 j = elem Ld 0 j"
    using fold_set_row [where g = "\<lambda>X j. elem Ld 0 j" and r = 0 and js = "[0 .. cols Ld - 1]"
        and X = "zeros (rows Ld) (cols Ld)"]
    by (auto simp: y0_def dims)
  have base: "elem m0 k j = pivot (elem a) (elem b) j (nat k)
      \<and> elem y0 k j = forward (elem a) (elem b) (elem Ld) j (nat k)"
    if "0 \<le> j \<and> j < w \<and> 0 \<le> k \<and> k \<le> 1 - 1" for j k
  proof -
    have k0: "k = 0" using that by simp
    have j: "0 \<le> j" "j < w" using that by simp_all
    show ?thesis unfolding k0 using M0(2) [OF j] Y0(2) [OF j] by simp
  qed
  have "cols l0 = w" by (simp add: l0_def dims)
  then have "fwd_inv a b Ld w (1 - 1) (l0, m0, y0)"
    unfolding fwd_inv_def prod.case using M0(1) Y0(1) base by blast
  then have "fwd_inv a b Ld w (max (1 - 1) (rows a - 1))
      (fold (forward_step a b Ld) [1 .. rows a - 1] (l0, m0, y0))"
    by (rule forward_loop_inv) simp
  moreover have "max (1 - 1) (rows a - 1) = rows a - 1" using n by simp
  moreover obtain l m y where
    lmy: "fold (forward_step a b Ld) [1 .. rows a - 1] (l0, m0, y0) = (l, m, y)"
    using prod_cases3 by blast
  ultimately have cy: "cols y = w"
    and my: "\<And>j k. 0 \<le> j \<Longrightarrow> j < w \<Longrightarrow> 0 \<le> k \<Longrightarrow> k \<le> rows a - 1 \<Longrightarrow>
        elem m k j = pivot (elem a) (elem b) j (nat k)
      \<and> elem y k j = forward (elem a) (elem b) (elem Ld) j (nat k)"
    by (auto simp: fwd_inv_def)
  define x1 where "x1 = fold (\<lambda>j x. set_elem x (rows a - 1) j
      (elem y (rows a - 1) j / elem m (rows a - 1) j)) [0 .. cols y - 1] x"
  have X1: "cols x1 = w" "rows x1 = rows x"
    "\<And>j. 0 \<le> j \<Longrightarrow> j < w \<Longrightarrow>
       elem x1 (rows a - 1) j = elem y (rows a - 1) j / elem m (rows a - 1) j"
    using fold_set_row [where g = "\<lambda>X j. elem y (rows a - 1) j / elem m (rows a - 1) j"
        and r = "rows a - 1" and js = "[0 .. cols y - 1]" and X = x]
    by (auto simp: x1_def dims cy)
  have start: "elem x1 i j = thomas_solution (elem a) (elem b) (elem Ld) (rows a) i j"
    if "0 \<le> j \<and> j < w \<and> rows a - 2 + 1 \<le> i \<and> i \<le> rows a - 1" for j i
  proof -
    have i: "i = rows a - 1" using that by simp
    have j: "0 \<le> j" "j < w" using that by simp_all
    have "nat (rows a) - 1 = nat (rows a - 1)" by simp
    then have "thomas_solution (elem a) (elem b) (elem Ld) (rows a) (rows a - 1) j
        = forward (elem a) (elem b) (elem Ld) j (nat (rows a - 1))
          / pivot (elem a) (elem b) j (nat (rows a - 1))"
      by (simp add: thomas_solution_def)
    then show ?thesis
      unfolding i using X1(3) [OF j] my [OF j, of "rows a - 1"] n by simp
  qed
  have "bwd_inv a b Ld x w (rows a - 2 + 1) x1"
    unfolding bwd_inv_def using X1(1,2) start by blast
  then have "bwd_inv a b Ld x w 0 (fold (backward_step b m y) (rev [0 .. rows a - 2]) x1)"
    by (rule backward_loop_inv [OF _ my]) (use n in simp_all)
  moreover have "Thomas a b Ld x = fold (backward_step b m y) (rev [0 .. rows a - 2]) x1"
    by (simp add: Thomas_def Let_def m0_def [symmetric] y0_def [symmetric] l0_def [symmetric]
        lmy x1_def)
  ultimately show ?thesis by simp
qed

lemma pivot_cong:
  assumes "\<And>k. k \<le> K \<Longrightarrow> a (int k) j = a' (int k) j"
    and "\<And>k. k < K \<Longrightarrow> b (int k) j = b' (int k) j"
  shows "pivot a b j K = pivot a' b' j K"
  using assms
proof (induction K)
  case 0
  from "0.prems"(1) [of 0] show ?case by simp
next
  case (Suc K)
  have "pivot a b j K = pivot a' b' j K"
    by (rule Suc.IH) (use Suc.prems in simp_all)
  moreover have "a (int (Suc K)) j = a' (int (Suc K)) j" "b (int K) j = b' (int K) j"
    using Suc.prems(1) [of "Suc K"] Suc.prems(2) [of K] by simp_all
  ultimately show ?case by (simp del: of_nat_Suc)
qed

lemma forward_cong:
  assumes "\<And>k. k \<le> K \<Longrightarrow> a (int k) j = a' (int k) j"
    and "\<And>k. k < K \<Longrightarrow> b (int k) j = b' (int k) j"
  shows "forward a b d j K = forward a' b' d j K"
  using assms
proof (induction K)
  case 0
  show ?case by simp
next
  case (Suc K)
  have "forward a b d j K = forward a' b' d j K"
    by (rule Suc.IH) (use Suc.prems in simp_all)
  moreover have "pivot a b j K = pivot a' b' j K"
    by (rule pivot_cong) (use Suc.prems in simp_all)
  moreover have "b (int K) j = b' (int K) j"
    using Suc.prems(2) [of K] by simp
  ultimately show ?case by (simp del: of_nat_Suc)
qed

lemma backward_cong:
  assumes a: "\<And>k. k \<le> n - 1 \<Longrightarrow> a (int k) j = a' (int k) j"
    and b: "\<And>k. k < n - 1 \<Longrightarrow> b (int k) j = b' (int k) j"
    and r: "r \<le> n - 1"
  shows "backward a b d n j r = backward a' b' d n j r"
  using r
proof (induction r)
  case 0
  have "forward a b d j (n - 1) = forward a' b' d j (n - 1)"
    by (rule forward_cong) (use a b in simp_all)
  moreover have "pivot a b j (n - 1) = pivot a' b' j (n - 1)"
    by (rule pivot_cong) (use a b in simp_all)
  ultimately show ?case by simp
next
  case (Suc r)
  then have lt: "n - 2 - r < n - 1" by simp
  have "forward a b d j (n - 2 - r) = forward a' b' d j (n - 2 - r)"
    by (rule forward_cong) (use a b lt in simp_all)
  moreover have "pivot a b j (n - 2 - r) = pivot a' b' j (n - 2 - r)"
    by (rule pivot_cong) (use a b lt in simp_all)
  moreover have "b (int (n - 2 - r)) j = b' (int (n - 2 - r)) j"
    by (rule b [OF lt])
  moreover have "backward a b d n j r = backward a' b' d n j r"
    by (rule Suc.IH) (use Suc.prems in simp)
  ultimately show ?case by simp
qed

lemma thomas_solution_cong:
  assumes a: "\<And>k. 0 \<le> k \<Longrightarrow> k \<le> n - 1 \<Longrightarrow> a k j = a' k j"
    and b: "\<And>k. 0 \<le> k \<Longrightarrow> k \<le> n - 2 \<Longrightarrow> b k j = b' k j"
    and i: "0 \<le> i" "i \<le> n - 1"
  shows "thomas_solution a b d n i j = thomas_solution a' b' d n i j"
  unfolding thomas_solution_def
proof (rule backward_cong)
  fix k :: nat
  assume "k \<le> nat n - 1"
  then have "int k \<le> n - 1" using i by linarith
  then show "a (int k) j = a' (int k) j" by (intro a) simp_all
next
  fix k :: nat
  assume "k < nat n - 1"
  then have "int k \<le> n - 2" using i by linarith
  then show "b (int k) j = b' (int k) j" by (intro b) simp_all
next
  show "nat (n - 1 - i) \<le> nat n - 1" using i by linarith
qed

lemma AOS_Rows_result:
  assumes dims: "rows (qr s) = H - 1" "cols (qr s) = W" "rows (py s) = H" "cols (py s) = W"
      "cols (Lty s) = W" "cols Ldprev = W"
    and H: "2 \<le> H"
  shows "\<And>i j. 0 \<le> i \<Longrightarrow> i \<le> H - 2 \<Longrightarrow> 0 \<le> j \<Longrightarrow> j < W \<Longrightarrow>
           elem (qr (AOS_Rows s Ldprev c tau)) i j = q_rows (elem c) i j
         \<and> elem (by' (AOS_Rows s Ldprev c tau)) i j = off_rows (elem c) tau i j"
    and "\<And>i j. 0 \<le> i \<Longrightarrow> i \<le> H - 1 \<Longrightarrow> 0 \<le> j \<Longrightarrow> j < W \<Longrightarrow>
           elem (py (AOS_Rows s Ldprev c tau)) i j = p_rows (elem c) H i j
         \<and> elem (ay (AOS_Rows s Ldprev c tau)) i j = diag_rows (elem c) H tau i j
         \<and> elem (Lty (AOS_Rows s Ldprev c tau)) i j
             = row_pass (elem c) (elem Ldprev) H tau i j"
    and "cols (Lty (AOS_Rows s Ldprev c tau)) = W"
    and "rows (Lty (AOS_Rows s Ldprev c tau)) = rows (Lty s)"
    and "Ltx (AOS_Rows s Ldprev c tau) = Ltx s \<and> qc (AOS_Rows s Ldprev c tau) = qc s
         \<and> px (AOS_Rows s Ldprev c tau) = px s"
proof -
  define q where "q = fold (\<lambda>i q. fold (\<lambda>j q. set_elem q i j (elem c i j + elem c (i + 1) j))
                             [0 .. cols (qr s) - 1] q)
                [0 .. rows (qr s) - 1] (qr s)"
  define p1 where "p1 = fold (\<lambda>j p. set_elem p 0 j (elem q 0 j)) [0 .. cols (py s) - 1] (py s)"
  define p2 where "p2 = fold (\<lambda>j p. set_elem p (rows (py s) - 1) j (elem q (rows (qr s) - 1) j))
                [0 .. cols (py s) - 1] p1"
  define p where "p = fold (\<lambda>i p. fold (\<lambda>j p. set_elem p i j (elem q (i - 1) j + elem q i j))
                             [0 .. cols (py s) - 1] p)
                [1 .. rows (py s) - 2] p2"
  define a where "a = mat_map (\<lambda>v. 1.0 + tau * v) p"
  define b where "b = mat_map (\<lambda>v. - tau * v) q"
  have res: "AOS_Rows s Ldprev c tau
      = s\<lparr>qr := q, py := p, ay := a, by' := b, Lty := Thomas a b Ldprev (Lty s)\<rparr>"
    by (simp add: AOS_Rows_def Let_def q_def p1_def p2_def p_def a_def b_def)
  have Q: "rows q = H - 1" "cols q = W"
    "\<And>i j. elem q i j = (if 0 \<le> i \<and> i \<le> H - 2 \<and> 0 \<le> j \<and> j < W
        then elem c i j + elem c (i + 1) j else elem (qr s) i j)"
    using fold_set_block [where g = "\<lambda>i j. elem c i j + elem c (i + 1) j"
        and js = "[0 .. cols (qr s) - 1]" and rws = "[0 .. rows (qr s) - 1]" and X = "qr s"]
    by (auto simp: q_def dims)
  have P1: "rows p1 = H" "cols p1 = W"
    "\<And>i j. elem p1 i j = (if i = 0 \<and> 0 \<le> j \<and> j < W then elem q 0 j else elem (py s) i j)"
    using fold_set_row [where g = "\<lambda>X j. elem q 0 j" and r = 0 and js = "[0 .. cols (py s) - 1]"
        and X = "py s"]
    by (auto simp: p1_def dims)
  have P2: "rows p2 = H" "cols p2 = W"
    "\<And>i j. elem p2 i j = (if i = H - 1 \<and> 0 \<le> j \<and> j < W then elem q (H - 2) j
        else elem p1 i j)"
    using fold_set_row [where g = "\<lambda>X j. elem q (rows (qr s) - 1) j" and r = "rows (py s) - 1"
        and js = "[0 .. cols (py s) - 1]" and X = p1]
    by (auto simp: p2_def dims P1)
  have P: "rows p = H" "cols p = W"
    "\<And>i j. elem p i j = (if 1 \<le> i \<and> i \<le> H - 2 \<and> 0 \<le> j \<and> j < W
        then elem q (i - 1) j + elem q i j else elem p2 i j)"
    using fold_set_block [where g = "\<lambda>i j. elem q (i - 1) j + elem q i j"
        and js = "[0 .. cols (py s) - 1]" and rws = "[1 .. rows (py s) - 2]" and X = p2]
    by (auto simp: p_def dims P2)
  have q_spec: "elem q i j = q_rows (elem c) i j"
    if "0 \<le> i" "i \<le> H - 2" "0 \<le> j" "j < W" for i j
    using that by (simp add: Q q_rows_def)
  have p_spec: "elem p i j = p_rows (elem c) H i j"
    if "0 \<le> i" "i \<le> H - 1" "0 \<le> j" "j < W" for i j
    using that H by (auto simp: P P2 P1 p_rows_def q_spec)
  have a_spec: "elem a i j = diag_rows (elem c) H tau i j"
    if "0 \<le> i" "i \<le> H - 1" "0 \<le> j" "j < W" for i j
    using p_spec [OF that] by (simp add: a_def diag_rows_def)
  have b_spec: "elem b i j = off_rows (elem c) tau i j"
    if "0 \<le> i" "i \<le> H - 2" "0 \<le> j" "j < W" for i j
    using q_spec [OF that] by (simp add: b_def off_rows_def)
  have T: "bwd_inv a b Ldprev (Lty s) W 0 (Thomas a b Ldprev (Lty s))"
    by (rule Thomas_solution) (use H in \<open>simp_all add: a_def b_def P Q dims\<close>)
  have ra: "rows a = H" by (simp add: a_def P)
  have x_spec: "elem (Thomas a b Ldprev (Lty s)) i j = row_pass (elem c) (elem Ldprev) H tau i j"
    if i: "0 \<le> i" "i \<le> H - 1" and j: "0 \<le> j" "j < W" for i j
  proof -
    have "elem (Thomas a b Ldprev (Lty s)) i j
        = thomas_solution (elem a) (elem b) (elem Ldprev) H i j"
      using T i j by (simp add: bwd_inv_def ra)
    also have "\<dots> = thomas_solution (diag_rows (elem c) H tau) (off_rows (elem c) tau)
        (elem Ldprev) H i j"
      by (rule thomas_solution_cong) (use i j a_spec b_spec in simp_all)
    finally show ?thesis by (simp add: row_pass_def)
  qed
  show "\<And>i j. 0 \<le> i \<Longrightarrow> i \<le> H - 2 \<Longrightarrow> 0 \<le> j \<Longrightarrow> j < W \<Longrightarrow>
           elem (qr (AOS_Rows s Ldprev c tau)) i j = q_rows (elem c) i j
         \<and> elem (by' (AOS_Rows s Ldprev c tau)) i j = off_rows (elem c) tau i j"
    by (simp add: res q_spec b_spec)
  show "\<And>i j. 0 \<le> i \<Longrightarrow> i \<le> H - 1 \<Longrightarrow> 0 \<le> j \<Longrightarrow> j < W \<Longrightarrow>
           elem (py (AOS_Rows s Ldprev c tau)) i j = p_rows (elem c) H i j
         \<and> elem (ay (AOS_Rows s Ldprev c tau)) i j = diag_rows (elem c) H tau i j
         \<and> elem (Lty (AOS_Rows s Ldprev c tau)) i j
             = row_pass (elem c) (elem Ldprev) H tau i j"
    by (simp add: res p_spec a_spec x_spec)
  show "cols (Lty (AOS_Rows s Ldprev c tau)) = W"
    "rows (Lty (AOS_Rows s Ldprev c tau)) = rows (Lty s)"
    using T by (simp_all add: res bwd_inv_def)
  show "Ltx (AOS_Rows s Ldprev c tau) = Ltx s \<and> qc (AOS_Rows s Ldprev c tau) = qc s
         \<and> px (AOS_Rows s Ldprev c tau) = px s"
    by (simp add: res)
qed

lemma AOS_Columns_result:
  assumes dims: "rows (qc s) = H" "cols (qc s) = W - 1" "rows (px s) = H" "cols (px s) = W"
      "cols (Ltx s) = H" "rows Ldprev = H"
    and W: "2 \<le> W"
  shows "\<And>i j. 0 \<le> i \<Longrightarrow> i < H \<Longrightarrow> 0 \<le> j \<Longrightarrow> j \<le> W - 2 \<Longrightarrow>
           elem (qc (AOS_Columns s Ldprev c tau)) i j = q_rows (\<lambda>j i. elem c i j) j i
         \<and> elem (bx (AOS_Columns s Ldprev c tau)) j i = off_rows (\<lambda>j i. elem c i j) tau j i"
    and "\<And>i j. 0 \<le> i \<Longrightarrow> i < H \<Longrightarrow> 0 \<le> j \<Longrightarrow> j \<le> W - 1 \<Longrightarrow>
           elem (px (AOS_Columns s Ldprev c tau)) i j = p_rows (\<lambda>j i. elem c i j) W j i
         \<and> elem (ax (AOS_Columns s Ldprev c tau)) j i = diag_rows (\<lambda>j i. elem c i j) W tau j i
         \<and> elem (Ltx (AOS_Columns s Ldprev c tau)) j i
             = row_pass (\<lambda>j i. elem c i j) (\<lambda>j i. elem Ldprev i j) W tau j i"
    and "Lty (AOS_Columns s Ldprev c tau) = Lty s \<and> qr (AOS_Columns s Ldprev c tau) = qr s
         \<and> py (AOS_Columns s Ldprev c tau) = py s \<and> ay (AOS_Columns s Ldprev c tau) = ay s
         \<and> by' (AOS_Columns s Ldprev c tau) = by' s"
proof -
  define q where "q = fold (\<lambda>j q. fold (\<lambda>i q. set_elem q i j (elem c i j + elem c i (j + 1)))
                             [0 .. rows (qc s) - 1] q)
                [0 .. cols (qc s) - 1] (qc s)"
  define p1 where "p1 = fold (\<lambda>i p. set_elem p i 0 (elem q i 0)) [0 .. rows (px s) - 1] (px s)"
  define p2 where "p2 = fold (\<lambda>i p. set_elem p i (cols (px s) - 1) (elem q i (cols (qc s) - 1)))
                [0 .. rows (px s) - 1] p1"
  define p where "p = fold (\<lambda>j p. fold (\<lambda>i p. set_elem p i j (elem q i (j - 1) + elem q i j))
                             [0 .. rows (px s) - 1] p)
                [1 .. cols (px s) - 2] p2"
  define a where "a = mat_map (\<lambda>v. 1.0 + tau * v) (mat_t p)"
  define b where "b = mat_map (\<lambda>v. - tau * v) (mat_t q)"
  have res: "AOS_Columns s Ldprev c tau
      = s\<lparr>qc := q, px := p, ax := a, bx := b, Ltx := Thomas a b (mat_t Ldprev) (Ltx s)\<rparr>"
    by (simp add: AOS_Columns_def Let_def q_def p1_def p2_def p_def a_def b_def)
  have Q: "rows q = H" "cols q = W - 1"
    "\<And>i j. elem q i j = (if 0 \<le> i \<and> i < H \<and> 0 \<le> j \<and> j \<le> W - 2
        then elem c i j + elem c i (j + 1) else elem (qc s) i j)"
    using fold_set_block_cols [where g = "\<lambda>i j. elem c i j + elem c i (j + 1)"
        and js = "[0 .. cols (qc s) - 1]" and rws = "[0 .. rows (qc s) - 1]" and X = "qc s"]
    by (auto simp: q_def dims)
  have P1: "rows p1 = H" "cols p1 = W"
    "\<And>i j. elem p1 i j = (if j = 0 \<and> 0 \<le> i \<and> i < H then elem q i 0 else elem (px s) i j)"
    using fold_set_col [where g = "\<lambda>X i. elem q i 0" and r = 0 and rws = "[0 .. rows (px s) - 1]"
        and X = "px s"]
    by (auto simp: p1_def dims)
  have P2: "rows p2 = H" "cols p2 = W"
    "\<And>i j. elem p2 i j = (if j = W - 1 \<and> 0 \<le> i \<and> i < H then elem q i (W - 2)
        else elem p1 i j)"
    using fold_set_col [where g = "\<lambda>X i. elem q i (cols (qc s) - 1)" and r = "cols (px s) - 1"
        and rws = "[0 .. rows (px s) - 1]" and X = p1]
    by (auto simp: p2_def dims P1)
  have P: "rows p = H" "cols p = W"
    "\<And>i j. elem p i j = (if 1 \<le> j \<and> j \<le> W - 2 \<and> 0 \<le> i \<and> i < H
        then elem q i (j - 1) + elem q i j else elem p2 i j)"
    using fold_set_block_cols [where g = "\<lambda>i j. elem q i (j - 1) + elem q i j"
        and rws = "[0 .. rows (px s) - 1]" and js = "[1 .. cols (px s) - 2]" and X = p2]
    by (auto simp: p_def dims P2)
  have q_spec: "elem q i j = q_rows (\<lambda>j i. elem c i j) j i"
    if "0 \<le> i" "i < H" "0 \<le> j" "j \<le> W - 2" for i j
    using that by (simp add: Q q_rows_def)
  have p_spec: "elem p i j = p_rows (\<lambda>j i. elem c i j) W j i"
    if "0 \<le> i" "i < H" "0 \<le> j" "j \<le> W - 1" for i j
    using that W by (auto simp: P P2 P1 p_rows_def q_spec)
  have a_spec: "elem a j i = diag_rows (\<lambda>j i. elem c i j) W tau j i"
    if "0 \<le> i" "i < H" "0 \<le> j" "j \<le> W - 1" for i j
    using p_spec [OF that] by (simp add: a_def diag_rows_def)
  have b_spec: "elem b j i = off_rows (\<lambda>j i. elem c i j) tau j i"
    if "0 \<le> i" "i < H" "0 \<le> j" "j \<le> W - 2" for i j
    using q_spec [OF that] by (simp add: b_def off_rows_def)
  have T: "bwd_inv a b (mat_t Ldprev) (Ltx s) H 0 (Thomas a b (mat_t Ldprev) (Ltx s))"
    by (rule Thomas_solution) (use W in \<open>simp_all add: a_def b_def P Q dims\<close>)
  have ra: "rows a = W" by (simp add: a_def P)
  have x_spec: "elem (Thomas a b (mat_t Ldprev) (Ltx s)) j i
      = row_pass (\<lambda>j i. elem c i j) (\<lambda>j i. elem Ldprev i j) W tau j i"
    if i: "0 \<le> i" "i < H" and j: "0 \<le> j" "j \<le> W - 1" for i j
  proof -
    have "elem (Thomas a b (mat_t Ldprev) (Ltx s)) j i
        = thomas_solution (elem a) (elem b) (elem (mat_t Ldprev)) W j i"
      using T i j by (simp add: bwd_inv_def ra)
    also have "\<dots> = thomas_solution (diag_rows (\<lambda>j i. elem c i j) W tau)
        (off_rows (\<lambda>j i. elem c i j) tau) (elem (mat_t Ldprev)) W j i"
      by (rule thomas_solution_cong) (use i j a_spec b_spec in simp_all)
    also have "elem (mat_t Ldprev) = (\<lambda>j i. elem Ldprev i j)"
      by (simp add: fun_eq_iff)
    finally show ?thesis by (simp add: row_pass_def)
  qed
  show "\<And>i j. 0 \<le> i \<Longrightarrow> i < H \<Longrightarrow> 0 \<le> j \<Longrightarrow> j \<le> W - 2 \<Longrightarrow>
           elem (qc (AOS_Columns s Ldprev c tau)) i j = q_rows (\<lambda>j i. elem c i j) j i
         \<and> elem (bx (AOS_Columns s Ldprev c tau)) j i = off_rows (\<lambda>j i. elem c i j) tau j i"
    by (simp add: res q_spec b_spec)
  show "\<And>i j. 0 \<le> i \<Longrightarrow> i < H \<Longrightarrow> 0 \<le> j \<Longrightarrow> j \<le> W - 1 \<Longrightarrow>
           elem (px (AOS_Columns s Ldprev c tau)) i j = p_rows (\<lambda>j i. elem c i j) W j i
         \<and> elem (ax (AOS_Columns s Ldprev c tau)) j i = diag_rows (\<lambda>j i. elem c i j) W tau j i
         \<and> elem (Ltx (AOS_Columns s Ldprev c tau)) j i
             = row_pass (\<lambda>j i. elem c i j) (\<lambda>j i. elem Ldprev i j) W tau j i"
    by (simp add: res p_spec a_spec x_spec)
  show "Lty (AOS_Columns s Ldprev c tau) = Lty s \<and> qr (AOS_Columns s Ldprev c tau) = qr s
         \<and> py (AOS_Columns s Ldprev c tau) = py s \<and> ay (AOS_Columns s Ldprev c tau) = ay s
         \<and> by' (AOS_Columns s Ldprev c tau) = by' s"
    by (simp add: res)
qed

section \<open>Verification: the angle of a vector\<close>

lemma Get_Angle_quadrants:
  "X \<ge> 0 \<and> Y \<ge> 0 \<Longrightarrow> Get_Angle X Y = fl_atan (fl_div (Fin Y) (Fin X))"
  "X < 0 \<and> Y \<ge> 0 \<Longrightarrow> Get_Angle X Y = fl_sub (Fin pi) (fl_atan (fl_div (Fin (- Y)) (Fin X)))"
  "X < 0 \<and> Y < 0 \<Longrightarrow> Get_Angle X Y = fl_add (Fin pi) (fl_atan (fl_div (Fin Y) (Fin X)))"
  "X \<ge> 0 \<and> Y < 0 \<Longrightarrow> Get_Angle X Y = fl_sub (Fin (pi + pi)) (fl_atan (fl_div (Fin (- Y)) (Fin X)))"
  by (auto simp: Get_Angle_def)

text \<open>
  Claim C8. The four quadrant formulas are the code (\<open>Get_Angle_quadrants\<close>). At the zero
  vector, which the orientation pass hands over for every sample outside the image, the first
  branch divides zero by zero and the result is a NaN, outside the documented range
  \<open>[0, 2\<pi>)\<close>.
\<close>

theorem Get_Angle_origin: "Get_Angle 0 0 = NaN"
  by (simp add: Get_Angle_def)

section \<open>Verification: descriptors\<close>

lemma cell_fold:
  "cell (\<lambda>k l. f (g k l)) i j a
     = fold f (concat (map (\<lambda>k. map (g k) [j .. j + sample_step - 1]) [i .. i + sample_step - 1])) a"
proof -
  have inner: "\<And>k a ls. fold (\<lambda>l a. f (g k l) a) ls a = fold f (map (g k) ls) a"
    by (simp add: fold_map o_def)
  have outer: "\<And>ks a. fold (\<lambda>k a. fold f (map (g k) [j .. j + sample_step - 1]) a) ks a
      = fold f (concat (map (\<lambda>k. map (g k) [j .. j + sample_step - 1]) ks)) a"
    subgoal for ks a by (induction ks arbitrary: a) simp_all
    done
  show ?thesis unfolding cell_def inner by (rule outer)
qed

lemma add8_gsurf_fields:
  "dxp (add8_gsurf (lww, lvv) a) = (if lww \<ge> 0 then dxp a + lvv else dxp a)"
  "dxn (add8_gsurf (lww, lvv) a) = (if lww \<ge> 0 then dxn a else dxn a + lvv)"
  "mdxp (add8_gsurf (lww, lvv) a) = (if lww \<ge> 0 then mdxp a + \<bar>lvv\<bar> else mdxp a)"
  "mdxn (add8_gsurf (lww, lvv) a) = (if lww \<ge> 0 then mdxn a else mdxn a + \<bar>lvv\<bar>)"
  "dyp (add8_gsurf (lww, lvv) a) = (if lvv \<ge> 0 then dyp a + lww else dyp a)"
  "dyn (add8_gsurf (lww, lvv) a) = (if lvv \<ge> 0 then dyn a else dyn a + lww)"
  "mdyp (add8_gsurf (lww, lvv) a) = (if lvv \<ge> 0 then mdyp a + \<bar>lww\<bar> else mdyp a)"
  "mdyn (add8_gsurf (lww, lvv) a) = (if lvv \<ge> 0 then mdyn a else mdyn a + \<bar>lww\<bar>)"
  by (simp_all add: add8_gsurf_def Let_def)

lemma fold_add8_gsurf:
  "fold add8_gsurf S a =
     \<lparr>dxp = dxp a + sum_list (map snd (filter (\<lambda>(lww, lvv). lww \<ge> 0) S)),
      dxn = dxn a + sum_list (map snd (filter (\<lambda>(lww, lvv). \<not> lww \<ge> 0) S)),
      mdxp = mdxp a + sum_list (map (\<lambda>(lww, lvv). \<bar>lvv\<bar>) (filter (\<lambda>(lww, lvv). lww \<ge> 0) S)),
      mdxn = mdxn a + sum_list (map (\<lambda>(lww, lvv). \<bar>lvv\<bar>) (filter (\<lambda>(lww, lvv). \<not> lww \<ge> 0) S)),
      dyp = dyp a + sum_list (map fst (filter (\<lambda>(lww, lvv). lvv \<ge> 0) S)),
      dyn = dyn a + sum_list (map fst (filter (\<lambda>(lww, lvv). \<not> lvv \<ge> 0) S)),
      mdyp = mdyp a + sum_list (map (\<lambda>(lww, lvv). \<bar>lww\<bar>) (filter (\<lambda>(lww, lvv). lvv \<ge> 0) S)),
      mdyn = mdyn a + sum_list (map (\<lambda>(lww, lvv). \<bar>lww\<bar>) (filter (\<lambda>(lww, lvv). \<not> lvv \<ge> 0) S))\<rparr>"
proof (induction S arbitrary: a)
  case Nil
  show ?case by simp
next
  case (Cons s S)
  obtain lww lvv where s: "s = (lww, lvv)" by (cases s)
  show ?case
  proof -
    have "fold add8_gsurf (s # S) a = fold add8_gsurf S (add8_gsurf (lww, lvv) a)"
      by (simp add: s)
    also note Cons.IH
    finally show ?thesis
      by (simp add: s add8_gsurf_fields)
  qed
qed

lemma fst_fold_put8:
  "fst (fold (\<lambda>j s. put8 (c j) s) js s) = fst s @ concat (map (\<lambda>j. entries8 (c j)) js)"
  by (induction js arbitrary: s) (simp_all add: put8_def entries8_def split: prod.splits)

lemma fst_grid_put8:
  "fst (grid (\<lambda>i j. put8 (c i j)) s) =
     fst s @ concat (map (\<lambda>i. concat (map (\<lambda>j. entries8 (c i j))
                (steps (- pattern_size) pattern_size sample_step)))
              (steps (- pattern_size) pattern_size sample_step))"
proof -
  have "\<And>is s. fst (fold (\<lambda>i s. fold (\<lambda>j s. put8 (c i j) s) js s) is s)
      = fst s @ concat (map (\<lambda>i. concat (map (\<lambda>j. entries8 (c i j)) js)) is)" for js
    subgoal for "is" s
      by (induction "is" arbitrary: s) (simp_all add: fst_fold_put8)
    done
  then show ?thesis by (simp add: grid_def)
qed


text \<open>
  Claim C9. In \<open>Get_GSURF_Descriptor_128\<close> every cell sums its samples with the swap: the
  \<open>x\<close>-half \<open>(dxp, dxn, mdxp, mdxn)\<close> accumulates \<open>lvv\<close> (and its absolute value), the sample
  going to the positive bucket when \<open>lww \<ge> 0\<close>; the \<open>y\<close>-half \<open>(dyp, dyn, mdyp, mdyn)\<close>
  accumulates \<open>lww\<close>, keyed by the sign of \<open>lvv\<close>. The descriptor holds, cell after cell, these
  eight sums in this order.
\<close>

theorem gsurf128_bucketing:
  "gsurf128_cell opt ev kpt i j = swapped_buckets (gsurf128_samples opt ev kpt i j)
   \<and> fst (gsurf128_sums opt ev kpt) =
       concat (map (\<lambda>i. concat (map (\<lambda>j. entries8 (gsurf128_cell opt ev kpt i j))
                  (steps (- pattern_size) pattern_size sample_step)))
                (steps (- pattern_size) pattern_size sample_step))"
proof
  show "gsurf128_cell opt ev kpt i j = swapped_buckets (gsurf128_samples opt ev kpt i j)"
    unfolding gsurf128_cell_def
      cell_fold [where f = add8_gsurf
        and g = "\<lambda>k l. gauge (level_at ev (class_id kpt)) (rotated_sample opt kpt k l)"]
      fold_add8_gsurf
    apply (simp only: gsurf128_samples_def swapped_buckets_def)
    apply (simp add: zero8_def not_le)
    done
  show "fst (gsurf128_sums opt ev kpt) =
       concat (map (\<lambda>i. concat (map (\<lambda>j. entries8 (gsurf128_cell opt ev kpt i j))
                  (steps (- pattern_size) pattern_size sample_step)))
                (steps (- pattern_size) pattern_size sample_step))"
    by (simp add: gsurf128_sums_def fst_grid_put8)
qed

lemma interpolate_const:
  assumes "\<forall>i j. elem m i j = c"
  shows "interpolate m p = c"
  using assms by (simp add: interpolate_def Let_def algebra_simps)

lemma add4_zero: "add4 (0, 0) a = a"
  by (simp add: add4_def)

lemma cell_id:
  assumes "\<And>k l a. body k l a = a"
  shows "cell body i j a = a"
proof -
  have inner: "\<And>k a ls. fold (\<lambda>l a. body k l a) ls a = a"
    subgoal for k a ls by (induction ls) (simp_all add: assms)
    done
  have "\<And>ks a. fold (\<lambda>k a. a) ks a = a"
    subgoal for ks a by (induction ks) simp_all
    done
  then show ?thesis by (simp add: cell_def inner)
qed

lemma gauge_zero:
  assumes "\<forall>i j. elem (Lx L) i j = 0" "\<forall>i j. elem (Ly L) i j = 0"
  shows "gauge L p = (0, 0)"
  by (simp add: gauge_def interpolate_const [OF assms(1)] interpolate_const [OF assms(2)])

lemma fold_put4_zero:
  "fold (\<lambda>j s. put4 zero4 s) js (replicate n 0, 0) = (replicate (n + 4 * length js) 0, 0)"
proof (induction js arbitrary: n)
  case Nil
  show ?case by simp
next
  case (Cons j js)
  have "put4 zero4 (replicate n 0, 0) = (replicate (n + 4) 0, 0)"
  proof -
    have "[0, 0, 0, 0] = replicate 4 (0::real)" by (simp add: numeral_eq_Suc)
    then show ?thesis by (simp add: put4_def zero4_def replicate_add)
  qed
  then show ?case by (simp add: Cons.IH)
qed

lemma length_steps: "length (steps (- pattern_size) pattern_size sample_step) = 4"
  by (simp add: steps_def pattern_size_def sample_step_def)

lemma grid_put4_zero: "grid (\<lambda>i j. put4 zero4) ([], 0) = (replicate 64 0, 0)"
proof -
  have outer: "\<And>is n. fold (\<lambda>i s. fold (\<lambda>j s. put4 zero4 s) js s) is (replicate n 0, 0)
      = (replicate (n + 4 * length js * length is) 0, 0)" for js
    subgoal for "is" n
      by (induction "is" arbitrary: n) (simp_all add: fold_put4_zero algebra_simps)
    done
  have "grid (\<lambda>i j. put4 zero4) (replicate 0 0, 0) = (replicate 64 0, 0)"
    unfolding grid_def outer by (simp add: length_steps)
  then show ?thesis by simp
qed

lemma fold_update_map:
  assumes "n \<le> length d"
  shows "fold (\<lambda>i d. d[i := f (d ! i)]) [0 ..< n] d = map f (take n d) @ drop n d"
  using assms
proof (induction n)
  case 0
  show ?case by simp
next
  case (Suc n)
  then have n: "n < length d" by simp
  have "fold (\<lambda>i d. d[i := f (d ! i)]) [0 ..< Suc n] d
      = (map f (take n d) @ drop n d)[n := f ((map f (take n d) @ drop n d) ! n)]"
    using Suc by simp
  also have "(map f (take n d) @ drop n d) ! n = d ! n"
    using n by (simp add: nth_append)
  also have "(map f (take n d) @ drop n d)[n := f (d ! n)]
      = map f (take n d) @ (drop n d)[0 := f (d ! n)]"
    using n by (simp add: list_update_append)
  also have "(drop n d)[0 := f (d ! n)] = f (d ! n) # drop (Suc n) d"
    using n by (simp add: Cons_nth_drop_Suc [symmetric])
  finally show ?case using n by (simp add: take_Suc_conv_app_nth)
qed

lemma clip_pass_NaN: "clip_pass cratio n (replicate n NaN) = replicate n NaN"
proof -
  let ?step = "\<lambda>j (desc, len).
                    let desc = (if fl_less (Fin cratio) (desc ! j) then desc[j := Fin cratio]
                                else if fl_less (desc ! j) (Fin (- cratio))
                                then desc[j := Fin (- cratio)]
                                else desc)
                    in (desc, fl_add len (fl_mul (desc ! j) (desc ! j)))"
  have "fst (fold ?step [0 ..< n] (replicate n NaN, Fin 0)) = replicate n NaN"
  proof (rule fold_invariant [where I = "\<lambda>s. fst s = replicate n NaN"])
    fix j :: nat and s :: "fl list \<times> fl"
    assume "fst s = replicate n NaN"
    then obtain len where s: "s = (replicate n NaN, len)" by (cases s) simp
    show "fst (?step j s) = replicate n NaN"
      by (cases "j < n") (simp_all add: s Let_def list_update_beyond)
  qed simp
  then have "\<exists>len. fold ?step [0 ..< n] (replicate n NaN, Fin 0) = (replicate n NaN, len)"
    by (simp add: prod_eq_iff)
  then obtain len where 1: "fold ?step [0 ..< n] (replicate n NaN, Fin 0) = (replicate n NaN, len)"
    by (rule exE)
  have 2: "fold (\<lambda>j desc. desc[j := fl_div (desc ! j) (fl_sqrt len)]) [0 ..< n] (replicate n NaN)
      = replicate n NaN"
    by (simp add: fold_update_map [where f = "\<lambda>v. fl_div v (fl_sqrt len)"])
  show ?thesis
    unfolding clip_pass_def 1 by (simp add: 2)
qed

lemma Clipping_Descriptor_NaN:
  "Clipping_Descriptor (replicate n NaN) n niter ratio = replicate n NaN"
  unfolding Clipping_Descriptor_def Let_def
  by (rule fold_invariant [where I = "\<lambda>d. d = replicate n NaN"]) (simp_all add: clip_pass_NaN)

lemma finish_descriptor_zero:
  "finish_descriptor clip n (replicate n 0, 0) = replicate n NaN"
proof -
  have "fold (\<lambda>i desc. desc[i := fl_div (desc ! i) (Fin 0)]) [0 ..< n] (map Fin (replicate n 0))
      = replicate n NaN"
    by (simp add: fold_update_map [where f = "\<lambda>v. fl_div v (Fin 0)"])
  then show ?thesis
    by (simp add: finish_descriptor_def Clipping_Descriptor_NaN Let_def)
qed

lemma surf_upright_cell_zero:
  assumes "\<forall>i j. elem (Lx (level_at ev (class_id kpt))) i j = 0"
    and "\<forall>i j. elem (Ly (level_at ev (class_id kpt))) i j = 0"
  shows "surf_upright_cell opt ev kpt i j = zero4"
  unfolding surf_upright_cell_def
  by (rule cell_id)
     (simp add: Let_def interpolate_const [OF assms(1)] interpolate_const [OF assms(2)] add4_zero)

lemma gsurf_cell_zero:
  assumes "\<forall>i j. elem (Lx (level_at ev (class_id kpt))) i j = 0"
    and "\<forall>i j. elem (Ly (level_at ev (class_id kpt))) i j = 0"
  shows "gsurf_cell opt ev kpt i j = zero4"
  unfolding gsurf_cell_def
  by (rule cell_id) (simp add: gauge_zero [OF assms] add4_zero)

lemma derivs_zero:
  assumes "\<forall>i j. elem (Lx L) i j = 0" "\<forall>i j. elem (Ly L) i j = 0"
  shows "derivs L p = (0, 0)"
  by (simp add: derivs_def interpolate_const [OF assms(1)] interpolate_const [OF assms(2)])

lemma rotate_deriv_zero: "rotate_deriv kpt (0, 0) = (0, 0)"
  by (simp add: rotate_deriv_def)

lemma add8_surf_zero: "add8_surf (0, 0) a = a"
  by (simp add: add8_surf_def)

lemma add8_gsurf_zero: "add8_gsurf (0, 0) a = a"
  by (simp add: add8_gsurf_def)

lemma fold_put8_zero:
  "fold (\<lambda>j s. put8 zero8 s) js (replicate n 0, 0) = (replicate (n + 8 * length js) 0, 0)"
proof (induction js arbitrary: n)
  case Nil
  show ?case by simp
next
  case (Cons j js)
  have "put8 zero8 (replicate n 0, 0) = (replicate (n + 8) 0, 0)"
  proof -
    have "[0, 0, 0, 0, 0, 0, 0, 0] = replicate 8 (0::real)" by (simp add: numeral_eq_Suc)
    then show ?thesis by (simp add: put8_def zero8_def replicate_add)
  qed
  then show ?case by (simp add: Cons.IH)
qed

lemma grid_put8_zero: "grid (\<lambda>i j. put8 zero8) ([], 0) = (replicate 128 0, 0)"
proof -
  have outer: "\<And>is n. fold (\<lambda>i s. fold (\<lambda>j s. put8 zero8 s) js s) is (replicate n 0, 0)
      = (replicate (n + 8 * length js * length is) 0, 0)" for js
    subgoal for "is" n
      by (induction "is" arbitrary: n) (simp_all add: fold_put8_zero algebra_simps)
    done
  have "grid (\<lambda>i j. put8 zero8) (replicate 0 0, 0) = (replicate 128 0, 0)"
    unfolding grid_def outer by (simp add: length_steps)
  then show ?thesis by simp
qed

text \<open>The M-SURF sums: every value is the float zero or a NaN.\<close>

lemma exp_div_cases:
  "a \<le> 0 \<Longrightarrow> fl_exp (fl_div (Fin a) (Fin b)) = NaN \<or> (\<exists>w. fl_exp (fl_div (Fin a) (Fin b)) = Fin w)"
  by (auto simp: fl_inf_def)

lemma gaussian_cases: "gaussian x y sig = NaN \<or> (\<exists>w. gaussian x y sig = Fin w)"
proof -
  have "- (x * x + y * y) \<le> 0" by (simp add: add_nonneg_nonneg)
  then show ?thesis unfolding gaussian_def by (rule exp_div_cases)
qed

lemma weight_zero:
  assumes "g = NaN \<or> (\<exists>w. g = Fin w)"
  shows "fl_mul g (Fin 0) \<in> {Fin 0, NaN}"
  using assms by auto

lemma zn_add: "a \<in> {Fin 0, NaN} \<Longrightarrow> b \<in> {Fin 0, NaN} \<Longrightarrow> fl_add a b \<in> {Fin 0, NaN}"
  by auto

lemma zn_abs: "a \<in> {Fin 0, NaN} \<Longrightarrow> fl_abs a \<in> {Fin 0, NaN}"
  by auto

lemma zn_mul: "a \<in> {Fin 0, NaN} \<Longrightarrow> b \<in> {Fin 0, NaN} \<Longrightarrow> fl_mul a b \<in> {Fin 0, NaN}"
  by auto

lemma zn_mul_weight:
  "a \<in> {Fin 0, NaN} \<Longrightarrow> g = NaN \<or> (\<exists>w. g = Fin w) \<Longrightarrow> fl_mul a g \<in> {Fin 0, NaN}"
  by auto

lemma zn_sqrt: "a \<in> {Fin 0, NaN} \<Longrightarrow> fl_sqrt a \<in> {Fin 0, NaN}"
  by auto

lemma zn_div: "a \<in> {Fin 0, NaN} \<Longrightarrow> b \<in> {Fin 0, NaN} \<Longrightarrow> fl_div a b = NaN"
  by auto

lemma weighted_zero:
  "fst (weighted (gaussian x y sig) (0, 0)) \<in> {Fin 0, NaN}
   \<and> snd (weighted (gaussian x y sig) (0, 0)) \<in> {Fin 0, NaN}"
  using weight_zero [OF gaussian_cases [of x y sig]] by (simp add: weighted_def)

lemma cell9_invariant:
  assumes "I a" "\<And>k l a. I a \<Longrightarrow> I (body k l a)"
  shows "I (cell9 body i j a)"
  unfolding cell9_def
  by (rule fold_invariant [where I = I]) (auto intro!: fold_invariant [where I = I] assms)

lemma msurf_while_unroll:
  "msurf_while body (- 8) c s
     = body 3 (c + 1 + 1 + 1 + 1) (body (- 2) (c + 1 + 1 + 1) (body (- 7) (c + 1 + 1)
         (body (- 12) (c + 1) s)))"
proof -
  have 1: "msurf_while body (- 8) c s = msurf_while body (- 3) (c + 1) (body (- 12) (c + 1) s)"
    by (subst msurf_while.simps) (simp add: Let_def)
  have 2: "\<And>c s. msurf_while body (- 3) c s = msurf_while body 2 (c + 1) (body (- 7) (c + 1) s)"
    by (subst msurf_while.simps) (simp add: Let_def)
  have 3: "\<And>c s. msurf_while body 2 c s = msurf_while body 7 (c + 1) (body (- 2) (c + 1) s)"
    by (subst msurf_while.simps) (simp add: Let_def)
  have 4: "\<And>c s. msurf_while body 7 c s = msurf_while body 12 (c + 1) (body 3 (c + 1) s)"
    by (subst msurf_while.simps) (simp add: Let_def)
  have 5: "\<And>c s. msurf_while body 12 c s = s"
    by (subst msurf_while.simps) simp
  show ?thesis unfolding 1 2 3 4 5 ..
qed

lemma msurf_grid_invariant:
  assumes 0: "I 0 s"
    and step: "\<And>i j cx cy n s. I n s \<Longrightarrow> I (Suc n) (body i j cx cy s)"
  shows "I 16 (msurf_grid body s)"
proof -
  have "I (Suc (Suc (Suc (Suc (Suc (Suc (Suc (Suc (Suc (Suc (Suc (Suc (Suc (Suc (Suc (Suc (0))))))))))))))))) (msurf_grid body s)"
    unfolding msurf_grid_def msurf_while_unroll by (intro step 0)
  then show ?thesis by (simp add: numeral_eq_Suc)
qed

lemma wadd4_zn:
  assumes "fst uv \<in> {Fin 0, NaN}" "snd uv \<in> {Fin 0, NaN}"
    and "wdx a \<in> {Fin 0, NaN} \<and> wdy a \<in> {Fin 0, NaN} \<and> wmdx a \<in> {Fin 0, NaN} \<and> wmdy a \<in> {Fin 0, NaN}"
  shows "wdx (wadd4 uv a) \<in> {Fin 0, NaN} \<and> wdy (wadd4 uv a) \<in> {Fin 0, NaN}
       \<and> wmdx (wadd4 uv a) \<in> {Fin 0, NaN} \<and> wmdy (wadd4 uv a) \<in> {Fin 0, NaN}"
proof -
  obtain u v where uv: "uv = (u, v)" by (cases uv)
  have u: "u \<in> {Fin 0, NaN}" and v: "v \<in> {Fin 0, NaN}" using assms(1,2) uv by simp_all
  show ?thesis
    unfolding uv wadd4_def using assms(3)
    by (simp only: prod.case wacc4.simps zn_add [OF _ u] zn_add [OF _ v]
        zn_add [OF _ zn_abs [OF u]] zn_add [OF _ zn_abs [OF v]] simp_thms)
qed

lemma wadd8_fields:
  "wdxp (wadd8 (u, v) a) = (if fl_le (Fin 0) v then fl_add (wdxp a) u else wdxp a)"
  "wdxn (wadd8 (u, v) a) = (if fl_le (Fin 0) v then wdxn a else fl_add (wdxn a) u)"
  "wmdxp (wadd8 (u, v) a) = (if fl_le (Fin 0) v then fl_add (wmdxp a) (fl_abs u) else wmdxp a)"
  "wmdxn (wadd8 (u, v) a) = (if fl_le (Fin 0) v then wmdxn a else fl_add (wmdxn a) (fl_abs u))"
  "wdyp (wadd8 (u, v) a) = (if fl_le (Fin 0) u then fl_add (wdyp a) v else wdyp a)"
  "wdyn (wadd8 (u, v) a) = (if fl_le (Fin 0) u then wdyn a else fl_add (wdyn a) v)"
  "wmdyp (wadd8 (u, v) a) = (if fl_le (Fin 0) u then fl_add (wmdyp a) (fl_abs v) else wmdyp a)"
  "wmdyn (wadd8 (u, v) a) = (if fl_le (Fin 0) u then wmdyn a else fl_add (wmdyn a) (fl_abs v))"
  by (simp_all add: wadd8_def Let_def)

lemma wadd8_zn:
  assumes "fst uv \<in> {Fin 0, NaN}" "snd uv \<in> {Fin 0, NaN}"
    and "wdxp a \<in> {Fin 0, NaN} \<and> wdxn a \<in> {Fin 0, NaN} \<and> wmdxp a \<in> {Fin 0, NaN}
         \<and> wmdxn a \<in> {Fin 0, NaN} \<and> wdyp a \<in> {Fin 0, NaN} \<and> wdyn a \<in> {Fin 0, NaN}
         \<and> wmdyp a \<in> {Fin 0, NaN} \<and> wmdyn a \<in> {Fin 0, NaN}"
  shows "wdxp (wadd8 uv a) \<in> {Fin 0, NaN} \<and> wdxn (wadd8 uv a) \<in> {Fin 0, NaN}
       \<and> wmdxp (wadd8 uv a) \<in> {Fin 0, NaN} \<and> wmdxn (wadd8 uv a) \<in> {Fin 0, NaN}
       \<and> wdyp (wadd8 uv a) \<in> {Fin 0, NaN} \<and> wdyn (wadd8 uv a) \<in> {Fin 0, NaN}
       \<and> wmdyp (wadd8 uv a) \<in> {Fin 0, NaN} \<and> wmdyn (wadd8 uv a) \<in> {Fin 0, NaN}"
proof -
  obtain u v where uv: "uv = (u, v)" by (cases uv)
  have u: "u \<in> {Fin 0, NaN}" and v: "v \<in> {Fin 0, NaN}" using assms(1,2) uv by simp_all
  note z = zn_add [OF _ u] zn_add [OF _ v] zn_add [OF _ zn_abs [OF u]] zn_add [OF _ zn_abs [OF v]]
  show ?thesis
    unfolding uv wadd8_fields using assms(3)
    by (cases "fl_le (Fin 0) v"; cases "fl_le (Fin 0) u")
       (simp_all only: if_True if_False z simp_thms)
qed

lemma wput4_zn:
  assumes a: "wdx a \<in> {Fin 0, NaN} \<and> wdy a \<in> {Fin 0, NaN} \<and> wmdx a \<in> {Fin 0, NaN}
              \<and> wmdy a \<in> {Fin 0, NaN}"
    and g: "g = NaN \<or> (\<exists>w. g = Fin w)"
    and s: "length (fst s) = 4 * n \<and> set (fst s) \<subseteq> {Fin 0, NaN} \<and> snd s \<in> {Fin 0, NaN}"
  shows "length (fst (wput4 g a s)) = 4 * Suc n \<and> set (fst (wput4 g a s)) \<subseteq> {Fin 0, NaN}
       \<and> snd (wput4 g a s) \<in> {Fin 0, NaN}"
proof -
  obtain desc len where sd: "s = (desc, len)" by (cases s)
  note m = zn_mul_weight [OF _ g]
  have e: "fl_mul (wdx a) g \<in> {Fin 0, NaN}" "fl_mul (wdy a) g \<in> {Fin 0, NaN}"
    "fl_mul (wmdx a) g \<in> {Fin 0, NaN}" "fl_mul (wmdy a) g \<in> {Fin 0, NaN}"
    using a by (simp_all add: m del: insert_iff)
  have q: "fl_add (fl_add (fl_add (fl_mul (wdx a) (wdx a)) (fl_mul (wdy a) (wdy a)))
                                        (fl_mul (wmdx a) (wmdx a)))
                                (fl_mul (wmdy a) (wmdy a)) \<in> {Fin 0, NaN}"
    using a by (intro zn_add zn_mul) simp_all
  have l: "fl_add len (fl_mul (fl_mul (fl_add (fl_add (fl_add (fl_mul (wdx a) (wdx a))
             (fl_mul (wdy a) (wdy a))) (fl_mul (wmdx a) (wmdx a))) (fl_mul (wmdy a) (wmdy a))) g) g)
           \<in> {Fin 0, NaN}"
    using s sd by (intro zn_add m q) simp
  show ?thesis
    unfolding sd wput4_def using s sd e l by (simp del: insert_iff)
qed

lemma wput8_zn:
  assumes a: "wdxp a \<in> {Fin 0, NaN} \<and> wdxn a \<in> {Fin 0, NaN} \<and> wmdxp a \<in> {Fin 0, NaN}
         \<and> wmdxn a \<in> {Fin 0, NaN} \<and> wdyp a \<in> {Fin 0, NaN} \<and> wdyn a \<in> {Fin 0, NaN}
         \<and> wmdyp a \<in> {Fin 0, NaN} \<and> wmdyn a \<in> {Fin 0, NaN}"
    and g: "g = NaN \<or> (\<exists>w. g = Fin w)"
    and s: "length (fst s) = 8 * n \<and> set (fst s) \<subseteq> {Fin 0, NaN} \<and> snd s \<in> {Fin 0, NaN}"
  shows "length (fst (wput8 g a s)) = 8 * Suc n \<and> set (fst (wput8 g a s)) \<subseteq> {Fin 0, NaN}
       \<and> snd (wput8 g a s) \<in> {Fin 0, NaN}"
proof -
  obtain desc len where sd: "s = (desc, len)" by (cases s)
  note m = zn_mul_weight [OF _ g]
  have e: "fl_mul (wdxp a) g \<in> {Fin 0, NaN}" "fl_mul (wdxn a) g \<in> {Fin 0, NaN}"
    "fl_mul (wmdxp a) g \<in> {Fin 0, NaN}" "fl_mul (wmdxn a) g \<in> {Fin 0, NaN}"
    "fl_mul (wdyp a) g \<in> {Fin 0, NaN}" "fl_mul (wdyn a) g \<in> {Fin 0, NaN}"
    "fl_mul (wmdyp a) g \<in> {Fin 0, NaN}" "fl_mul (wmdyn a) g \<in> {Fin 0, NaN}"
    using a by (simp_all add: m del: insert_iff)
  have q: "fl_add (fl_add (fl_add (fl_add (fl_add (fl_add (fl_add
                 (fl_mul (wdxp a) (wdxp a)) (fl_mul (wdxn a) (wdxn a)))
                 (fl_mul (wmdxp a) (wmdxp a))) (fl_mul (wmdxn a) (wmdxn a)))
                 (fl_mul (wdyp a) (wdyp a))) (fl_mul (wdyn a) (wdyn a)))
                 (fl_mul (wmdyp a) (wmdyp a))) (fl_mul (wmdyn a) (wmdyn a)) \<in> {Fin 0, NaN}"
    using a by (intro zn_add zn_mul) simp_all
  have l: "fl_add len (fl_mul (fl_mul (fl_add (fl_add (fl_add (fl_add (fl_add (fl_add (fl_add
                 (fl_mul (wdxp a) (wdxp a)) (fl_mul (wdxn a) (wdxn a)))
                 (fl_mul (wmdxp a) (wmdxp a))) (fl_mul (wmdxn a) (wmdxn a)))
                 (fl_mul (wdyp a) (wdyp a))) (fl_mul (wdyn a) (wdyn a)))
                 (fl_mul (wmdyp a) (wmdyp a))) (fl_mul (wmdyn a) (wmdyn a))) g) g)
           \<in> {Fin 0, NaN}"
    using s sd by (intro zn_add m q) simp
  show ?thesis
    unfolding sd wput8_def using s sd e l by (simp del: insert_iff)
qed

lemma finish_weighted_zn:
  assumes "length desc = n" "set desc \<subseteq> {Fin 0, NaN}" "len \<in> {Fin 0, NaN}"
  shows "finish_weighted clip n (desc, len) = replicate n NaN"
proof -
  have "map (\<lambda>v. fl_div v (fl_sqrt len)) desc = map (\<lambda>v. NaN) desc"
    using assms(2) zn_div [OF _ zn_sqrt [OF assms(3)]] by (intro map_cong refl) blast
  then have "fold (\<lambda>i desc. desc[i := fl_div (desc ! i) (fl_sqrt len)]) [0 ..< n] desc
      = replicate n NaN"
    using assms(1) by (simp add: fold_update_map [where f = "\<lambda>v. fl_div v (fl_sqrt len)"]
        map_replicate_const)
  then show ?thesis
    by (simp add: finish_weighted_def Clipping_Descriptor_NaN Let_def)
qed

lemma msurf_weight_cases:
  "msurf_upright_weight kpt i j k l = NaN \<or> (\<exists>w. msurf_upright_weight kpt i j k l = Fin w)"
  "msurf_rotated_weight kpt i j k l = NaN \<or> (\<exists>w. msurf_rotated_weight kpt i j k l = Fin w)"
  unfolding msurf_upright_weight_def msurf_rotated_weight_def Let_def
  by (rule gaussian_cases)+

lemma weighted_zn:
  assumes "g = NaN \<or> (\<exists>w. g = Fin w)"
  shows "fst (weighted g (0, 0)) \<in> {Fin 0, NaN}" "snd (weighted g (0, 0)) \<in> {Fin 0, NaN}"
  using weight_zero [OF assms] by (simp_all add: weighted_def)

lemma msurf4_zero:
  assumes cellz: "\<And>i j. wdx (c i j) \<in> {Fin 0, NaN} \<and> wdy (c i j) \<in> {Fin 0, NaN}
                      \<and> wmdx (c i j) \<in> {Fin 0, NaN} \<and> wmdy (c i j) \<in> {Fin 0, NaN}"
  shows "finish_weighted clip 64
           (msurf_grid (\<lambda>i j cx cy. wput4 (gaussian (cx - 2.0) (cy - 2.0) 1.5) (c i j)) ([], Fin 0))
         = replicate 64 NaN"
proof -
  let ?I = "\<lambda>n (s :: fl list \<times> fl).
      length (fst s) = 4 * n \<and> set (fst s) \<subseteq> {Fin 0, NaN} \<and> snd s \<in> {Fin 0, NaN}"
  let ?r = "msurf_grid (\<lambda>i j cx cy. wput4 (gaussian (cx - 2.0) (cy - 2.0) 1.5) (c i j)) ([], Fin 0)"
  have "?I 16 ?r"
  proof (rule msurf_grid_invariant [where I = ?I])
    show "?I 0 ([], Fin 0)" by simp
    fix i j :: int and cx cy :: real and n :: nat and s :: "fl list \<times> fl"
    assume "?I n s"
    then show "?I (Suc n) (wput4 (gaussian (cx - 2.0) (cy - 2.0) 1.5) (c i j) s)"
      by (intro wput4_zn cellz gaussian_cases)
  qed
  then have "length (fst ?r) = 64" "set (fst ?r) \<subseteq> {Fin 0, NaN}" "snd ?r \<in> {Fin 0, NaN}"
    by simp_all
  then have "finish_weighted clip 64 (fst ?r, snd ?r) = replicate 64 NaN"
    by (rule finish_weighted_zn)
  then show ?thesis by simp
qed

lemma msurf8_zero:
  assumes cellz: "\<And>i j. wdxp (c i j) \<in> {Fin 0, NaN} \<and> wdxn (c i j) \<in> {Fin 0, NaN}
         \<and> wmdxp (c i j) \<in> {Fin 0, NaN} \<and> wmdxn (c i j) \<in> {Fin 0, NaN}
         \<and> wdyp (c i j) \<in> {Fin 0, NaN} \<and> wdyn (c i j) \<in> {Fin 0, NaN}
         \<and> wmdyp (c i j) \<in> {Fin 0, NaN} \<and> wmdyn (c i j) \<in> {Fin 0, NaN}"
  shows "finish_weighted clip 128
           (msurf_grid (\<lambda>i j cx cy. wput8 (gaussian (cx - 2.0) (cy - 2.0) 1.5) (c i j)) ([], Fin 0))
         = replicate 128 NaN"
proof -
  let ?I = "\<lambda>n (s :: fl list \<times> fl).
      length (fst s) = 8 * n \<and> set (fst s) \<subseteq> {Fin 0, NaN} \<and> snd s \<in> {Fin 0, NaN}"
  let ?r = "msurf_grid (\<lambda>i j cx cy. wput8 (gaussian (cx - 2.0) (cy - 2.0) 1.5) (c i j)) ([], Fin 0)"
  have "?I 16 ?r"
  proof (rule msurf_grid_invariant [where I = ?I])
    show "?I 0 ([], Fin 0)" by simp
    fix i j :: int and cx cy :: real and n :: nat and s :: "fl list \<times> fl"
    assume "?I n s"
    then show "?I (Suc n) (wput8 (gaussian (cx - 2.0) (cy - 2.0) 1.5) (c i j) s)"
      by (intro wput8_zn cellz gaussian_cases)
  qed
  then have "length (fst ?r) = 128" "set (fst ?r) \<subseteq> {Fin 0, NaN}" "snd ?r \<in> {Fin 0, NaN}"
    by simp_all
  then have "finish_weighted clip 128 (fst ?r, snd ?r) = replicate 128 NaN"
    by (rule finish_weighted_zn)
  then show ?thesis by simp
qed

lemma cell9_wadd4_zn:
  assumes "\<And>k l. fst (f k l) \<in> {Fin 0, NaN} \<and> snd (f k l) \<in> {Fin 0, NaN}"
  shows "wdx (cell9 (\<lambda>k l. wadd4 (f k l)) i j wzero4) \<in> {Fin 0, NaN}
       \<and> wdy (cell9 (\<lambda>k l. wadd4 (f k l)) i j wzero4) \<in> {Fin 0, NaN}
       \<and> wmdx (cell9 (\<lambda>k l. wadd4 (f k l)) i j wzero4) \<in> {Fin 0, NaN}
       \<and> wmdy (cell9 (\<lambda>k l. wadd4 (f k l)) i j wzero4) \<in> {Fin 0, NaN}"
  by (rule cell9_invariant [where I = "\<lambda>a. wdx a \<in> {Fin 0, NaN} \<and> wdy a \<in> {Fin 0, NaN}
                      \<and> wmdx a \<in> {Fin 0, NaN} \<and> wmdy a \<in> {Fin 0, NaN}"])
     (simp add: wzero4_def, rule wadd4_zn, simp_all add: assms del: insert_iff)

lemma cell9_wadd8_zn:
  assumes "\<And>k l. fst (f k l) \<in> {Fin 0, NaN} \<and> snd (f k l) \<in> {Fin 0, NaN}"
  shows "wdxp (cell9 (\<lambda>k l. wadd8 (f k l)) i j wzero8) \<in> {Fin 0, NaN}
       \<and> wdxn (cell9 (\<lambda>k l. wadd8 (f k l)) i j wzero8) \<in> {Fin 0, NaN}
       \<and> wmdxp (cell9 (\<lambda>k l. wadd8 (f k l)) i j wzero8) \<in> {Fin 0, NaN}
       \<and> wmdxn (cell9 (\<lambda>k l. wadd8 (f k l)) i j wzero8) \<in> {Fin 0, NaN}
       \<and> wdyp (cell9 (\<lambda>k l. wadd8 (f k l)) i j wzero8) \<in> {Fin 0, NaN}
       \<and> wdyn (cell9 (\<lambda>k l. wadd8 (f k l)) i j wzero8) \<in> {Fin 0, NaN}
       \<and> wmdyp (cell9 (\<lambda>k l. wadd8 (f k l)) i j wzero8) \<in> {Fin 0, NaN}
       \<and> wmdyn (cell9 (\<lambda>k l. wadd8 (f k l)) i j wzero8) \<in> {Fin 0, NaN}"
  by (rule cell9_invariant [where I = "\<lambda>a. wdxp a \<in> {Fin 0, NaN} \<and> wdxn a \<in> {Fin 0, NaN}
         \<and> wmdxp a \<in> {Fin 0, NaN} \<and> wmdxn a \<in> {Fin 0, NaN}
         \<and> wdyp a \<in> {Fin 0, NaN} \<and> wdyn a \<in> {Fin 0, NaN}
         \<and> wmdyp a \<in> {Fin 0, NaN} \<and> wmdyn a \<in> {Fin 0, NaN}"])
     (simp add: wzero8_def, rule wadd8_zn, simp_all add: assms del: insert_iff)

text \<open>
  Claim C10. Every extractor of the file (four SURF, four M-SURF and three G-SURF ones) ends
  by dividing every component by \<open>len\<close>, the root of the sum of squares, with no test of
  \<open>len\<close> against zero. Where the derivative images \<open>Lx\<close> and \<open>Ly\<close> of the keypoint's level
  are zero, every sum is zero (in the M-SURF extractors a sum can also be a NaN, when the
  scale of the keypoint is 0 and the Gaussian weight divides by zero), so is \<open>len\<close>, and
  each entry of the descriptor is the unguarded quotient, a NaN and not 0; the clipping pass,
  when enabled, leaves the NaNs in place.
\<close>

theorem zero_length_descriptor:
  assumes x: "\<forall>i j. elem (Lx (level_at ev (class_id kpt))) i j = 0"
    and y: "\<forall>i j. elem (Ly (level_at ev (class_id kpt))) i j = 0"
  shows "Get_SURF_Upright_Descriptor_64 clip opt ev kpt = replicate 64 NaN
       \<and> Get_SURF_Descriptor_64 clip opt ev kpt = replicate 64 NaN
       \<and> Get_SURF_Upright_Descriptor_128 clip opt ev kpt = replicate 128 NaN
       \<and> Get_SURF_Descriptor_128 clip opt ev kpt = replicate 128 NaN
       \<and> Get_MSURF_Upright_Descriptor_64 clip opt ev kpt = replicate 64 NaN
       \<and> Get_MSURF_Descriptor_64 clip opt ev kpt = replicate 64 NaN
       \<and> Get_MSURF_Upright_Descriptor_128 clip opt ev kpt = replicate 128 NaN
       \<and> Get_MSURF_Descriptor_128 clip opt ev kpt = replicate 128 NaN
       \<and> Get_GSURF_Descriptor_64 clip opt ev kpt = replicate 64 NaN
       \<and> Get_GSURF_Upright_Descriptor_64 clip opt ev kpt = replicate 64 NaN
       \<and> Get_GSURF_Descriptor_128 clip opt ev kpt = replicate 128 NaN"
proof -
  note d = derivs_zero [OF x y]
  note g = gauge_zero [OF x y]
  have s1: "Get_SURF_Upright_Descriptor_64 clip opt ev kpt = replicate 64 NaN"
    by (simp only: Get_SURF_Upright_Descriptor_64_def surf_upright_cell_zero [OF x y]
        grid_put4_zero finish_descriptor_zero)
  have c2: "\<And>i j. cell (\<lambda>k l. add4 (rotate_deriv kpt (derivs (level_at ev (class_id kpt))
              (rotated_sample opt kpt k l)))) i j zero4 = zero4"
    by (rule cell_id) (simp add: d rotate_deriv_zero add4_zero)
  have s2: "Get_SURF_Descriptor_64 clip opt ev kpt = replicate 64 NaN"
    by (simp only: Get_SURF_Descriptor_64_def c2 grid_put4_zero finish_descriptor_zero)
  have c3: "\<And>i j. cell (\<lambda>k l. add8_surf (derivs (level_at ev (class_id kpt))
              (upright_sample opt kpt k l))) i j zero8 = zero8"
    by (rule cell_id) (simp add: d add8_surf_zero)
  have s3: "Get_SURF_Upright_Descriptor_128 clip opt ev kpt = replicate 128 NaN"
    by (simp only: Get_SURF_Upright_Descriptor_128_def c3 grid_put8_zero finish_descriptor_zero)
  have c4: "\<And>i j. cell (\<lambda>k l. add8_surf (rotate_deriv kpt (derivs (level_at ev (class_id kpt))
              (rotated_sample opt kpt k l)))) i j zero8 = zero8"
    by (rule cell_id) (simp add: d rotate_deriv_zero add8_surf_zero)
  have s4: "Get_SURF_Descriptor_128 clip opt ev kpt = replicate 128 NaN"
    by (simp only: Get_SURF_Descriptor_128_def c4 grid_put8_zero finish_descriptor_zero)
  have m1: "Get_MSURF_Upright_Descriptor_64 clip opt ev kpt = replicate 64 NaN"
    unfolding Get_MSURF_Upright_Descriptor_64_def d
    by (rule msurf4_zero, rule cell9_wadd4_zn) (simp add: weighted_zn msurf_weight_cases del: insert_iff)
  have m2: "Get_MSURF_Descriptor_64 clip opt ev kpt = replicate 64 NaN"
    unfolding Get_MSURF_Descriptor_64_def d rotate_deriv_zero
    by (rule msurf4_zero, rule cell9_wadd4_zn) (simp add: weighted_zn msurf_weight_cases del: insert_iff)
  have m3: "Get_MSURF_Upright_Descriptor_128 clip opt ev kpt = replicate 128 NaN"
    unfolding Get_MSURF_Upright_Descriptor_128_def d
    by (rule msurf8_zero, rule cell9_wadd8_zn) (simp add: weighted_zn msurf_weight_cases del: insert_iff)
  have m4: "Get_MSURF_Descriptor_128 clip opt ev kpt = replicate 128 NaN"
    unfolding Get_MSURF_Descriptor_128_def d rotate_deriv_zero
    by (rule msurf8_zero, rule cell9_wadd8_zn) (simp add: weighted_zn msurf_weight_cases del: insert_iff)
  have g1: "Get_GSURF_Descriptor_64 clip opt ev kpt = replicate 64 NaN"
    by (simp only: Get_GSURF_Descriptor_64_def gsurf_cell_zero [OF x y]
        grid_put4_zero finish_descriptor_zero)
  have c10: "\<And>i j. cell (\<lambda>k l. add4 (gauge (level_at ev (class_id kpt))
              (gsurf_upright_sample opt kpt k l))) i j zero4 = zero4"
    by (rule cell_id) (simp add: g add4_zero)
  have g2: "Get_GSURF_Upright_Descriptor_64 clip opt ev kpt = replicate 64 NaN"
    by (simp only: Get_GSURF_Upright_Descriptor_64_def c10 grid_put4_zero finish_descriptor_zero)
  have c11: "\<And>i j. gsurf128_cell opt ev kpt i j = zero8"
    unfolding gsurf128_cell_def by (rule cell_id) (simp add: g add8_gsurf_zero)
  have g3: "Get_GSURF_Descriptor_128 clip opt ev kpt = replicate 128 NaN"
    by (simp only: Get_GSURF_Descriptor_128_def gsurf128_sums_def c11 grid_put8_zero
        finish_descriptor_zero)
  from s1 s2 s3 s4 m1 m2 m3 m4 g1 g2 g3 show ?thesis by (intro conjI)
qed

section \<open>The concrete inputs, evaluated\<close>

lemma upto_small:
  "[0 .. 0] = [0::int]" "[0 .. 1] = [0, 1::int]" "[0 .. 2] = [0, 1, 2::int]"
  "[0 .. 3] = [0, 1, 2, 3::int]" "[1 .. 1] = [1::int]" "[1 .. 5] = [1, 2, 3, 4, 5::int]"
  by (simp_all add: upto.simps)

lemma level_scalars:
  assumes "nsublevels opt = 1" "0 \<le> i" "i \<le> 8" "0 < soffset opt"
    "soffset opt * 2 ^ nat i < float_overflow"
    "(soffset opt * 2 ^ nat i) * (soffset opt * 2 ^ nat i) < float_overflow"
  shows "esigma (new_level range_arith opt i 0) = Fin (soffset opt * 2 ^ nat i)"
    and "sigma_size (new_level range_arith opt i 0) = fRound_of (Fin (soffset opt * 2 ^ nat i))"
    and "octave (new_level range_arith opt i 0) = i"
    and "sublevel (new_level range_arith opt i 0) = 0"
    and "Lx (new_level range_arith opt i 0) = zeros (img_height opt) (img_width opt)"
    and "Ly (new_level range_arith opt i 0) = zeros (img_height opt) (img_width opt)"
proof -
  have ov: "\<not> float_overflow \<le> x" "\<not> x \<le> - float_overflow" if "0 \<le> x" "x \<le> 256" for x
    using that float_overflow_big by linarith+
  have i: "real_of_int i \<le> 256" "0 \<le> real_of_int i" using assms(2,3) by simp_all
  have e: "f_add range_arith (f_div range_arith (f_int range_arith 0) (f_int range_arith 1))
             (f_int range_arith i) = Fin (real_of_int i)"
    using ov [of 0] ov [of 1] ov [OF i(2) i(1)]
    by (simp add: f_add_def f_div_def f_int_def rounded_def range_arith_def range_rnd_def)
  have p: "(2::real) powr real_of_int i = 2 ^ nat i"
    using assms(2) by (simp add: powr_realpow [symmetric])
  have p2: "pow2 range_arith (Fin (real_of_int i)) = Fin (2 ^ nat i)"
  proof -
    have "(2::real) ^ nat i \<le> 2 ^ 8" using assms(2,3) by (intro power_increasing) simp_all
    then have "\<not> float_overflow \<le> (2::real) ^ nat i" using float_overflow_big by simp
    then show ?thesis by (simp add: range_pow2_Fin p)
  qed
  have s0: "0 < soffset opt * 2 ^ nat i" using assms(4) by simp
  have es: "f_mul range_arith (Fin (soffset opt)) (Fin (2 ^ nat i)) = Fin (soffset opt * 2 ^ nat i)"
    using assms(5) s0 float_overflow_big
    by (simp add: f_mul_def rounded_def range_arith_def range_rnd_def)
  show "esigma (new_level range_arith opt i 0) = Fin (soffset opt * 2 ^ nat i)"
    and "sigma_size (new_level range_arith opt i 0) = fRound_of (Fin (soffset opt * 2 ^ nat i))"
    and "octave (new_level range_arith opt i 0) = i"
    and "sublevel (new_level range_arith opt i 0) = 0"
    and "Lx (new_level range_arith opt i 0) = zeros (img_height opt) (img_width opt)"
    and "Ly (new_level range_arith opt i 0) = zeros (img_height opt) (img_width opt)"
    using assms(1) by (simp_all add: new_level_def Let_def e p2 es)
qed

lemma Allocate_flat: "Allocate_Memory_Evolution range_arith opts_flat = [new_level range_arith opts_flat 0 0, new_level range_arith opts_flat 1 0, new_level range_arith opts_flat 2 0]"
  by (simp add: Allocate_Memory_Evolution_def opts_flat_def upto_small)

lemma ev_flat_levels:
  "level_at ev_flat 0 = (new_level range_arith opts_flat 0 0)\<lparr>Ldet := zeros 3 3\<rparr>"
  "level_at ev_flat 1 = (new_level range_arith opts_flat 1 0)\<lparr>Ldet := mat_of 3 3 (\<lambda>i j. 1)\<rparr>"
  "level_at ev_flat 2 = (new_level range_arith opts_flat 2 0)\<lparr>Ldet := zeros 3 3\<rparr>"
  by (simp_all add: ev_flat_def Allocate_flat with_Ldet_def level_at_def)

lemma cmn_3x3:
  "Check_Maximum_Neighbourhood img 1 v 1 1 s \<longleftrightarrow>
     elem img 0 0 \<le> v \<and> elem img 0 1 \<le> v \<and> elem img 0 2 \<le> v \<and>
     elem img 1 0 \<le> v \<and> elem img 1 1 \<le> v \<and> elem img 1 2 \<le> v \<and>
     elem img 2 0 \<le> v \<and> elem img 2 1 \<le> v \<and> elem img 2 2 \<le> v"
  by (simp add: Check_Maximum_Neighbourhood_def upto_small) 

lemma ext_flat: "is_extremum_at Check_Maximum_Neighbourhood dmin0 opts_flat ev_flat 1 1 1"
  by (simp add: is_extremum_at_def ev_flat_levels cmn_3x3 mat_of_def zeros_def Let_def) (simp add: opts_flat_def dmin0_def)


lemma Allocate_peaks:
  "Allocate_Memory_Evolution range_arith opts_peaks =
     [new_level range_arith opts_peaks 0 0, new_level range_arith opts_peaks 1 0, new_level range_arith opts_peaks 2 0,
      new_level range_arith opts_peaks 3 0]"
  by (simp add: Allocate_Memory_Evolution_def opts_peaks_def upto_small)

lemma length_ev_peaks: "length ev_peaks = 4"
  by (simp add: ev_peaks_def Allocate_peaks with_Ldet_def)

lemma levels_peaks:
  "level_at ev_peaks 0 = (new_level range_arith opts_peaks 0 0)\<lparr>Ldet := zeros 3 7\<rparr>"
  "level_at ev_peaks 1 = (new_level range_arith opts_peaks 1 0)
     \<lparr>Ldet := mat_of 3 7 (\<lambda>i j. if i = 1 \<and> (j = 1 \<or> j = 5) then 1 else 0)\<rparr>"
  "level_at ev_peaks 2 = (new_level range_arith opts_peaks 2 0)
     \<lparr>Ldet := mat_of 3 7 (\<lambda>i j. if i = 1 \<and> j = 3 then 2 else 0)\<rparr>"
  "level_at ev_peaks 3 = (new_level range_arith opts_peaks 3 0)\<lparr>Ldet := zeros 3 7\<rparr>"
  by (simp_all add: ev_peaks_def Allocate_peaks with_Ldet_def level_at_def)

lemma Ldet_peaks:
  "Ldet (level_at ev_peaks 0) = zeros 3 7"
  "Ldet (level_at ev_peaks 1) = mat_of 3 7 (\<lambda>i j. if i = 1 \<and> (j = 1 \<or> j = 5) then 1 else 0)"
  "Ldet (level_at ev_peaks 2) = mat_of 3 7 (\<lambda>i j. if i = 1 \<and> j = 3 then 2 else 0)"
  "Ldet (level_at ev_peaks 3) = zeros 3 7"
  by (simp_all add: levels_peaks)

lemma scalars_peaks:
  "sigma_size (level_at ev_peaks 1) = 3" "sigma_size (level_at ev_peaks 2) = 6"
  "esigma (level_at ev_peaks 1) = Fin 3.2" "esigma (level_at ev_peaks 2) = Fin 6.4"
  "octave (level_at ev_peaks 1) = 1" "octave (level_at ev_peaks 2) = 2"
  "sublevel (level_at ev_peaks 1) = 0" "sublevel (level_at ev_peaks 2) = 0"
  by (simp_all add: levels_peaks level_scalars opts_peaks_def fRound_of_def fRound_def c_int_def
      float_overflow_def)

lemma dims_peaks: "img_width opts_peaks - 2 = 5" "img_height opts_peaks - 2 = 1"
  "dthreshold opts_peaks = 0.001" "nsublevels opts_peaks = 1" "soffset opts_peaks = 1.6"
  by (simp_all add: opts_peaks_def)

lemma new_point_peaks:
  "new_point ev_peaks 1 1 1 = peak_a"
  "new_point ev_peaks 1 1 5 = peak_b"
  "new_point ev_peaks 2 1 3 = peak_c"
  by (simp_all add: new_point_def peak_def peak_a_def peak_b_def peak_c_def refined_b_def refined_c_def scalars_peaks Ldet_peaks mat_of_def)

lemma extrema_peaks:
  "filter (is_extremum_at Check_Maximum_Neighbourhood dmin0 opts_peaks ev_peaks 1 1) [1, 2, 3, 4, 5] = [1, 5]"
  "filter (is_extremum_at Check_Maximum_Neighbourhood dmin0 opts_peaks ev_peaks 2 1) [1, 2, 3, 4, 5] = [3]"
  by (simp_all add: is_extremum_at_def Ldet_peaks dims_peaks mat_of_def zeros_def dmin0_def
      Check_Maximum_Neighbourhood_def upto.simps Let_def)

lemma Find_Extremum_peaks:
  "Find_Extremum_Threading Check_Maximum_Neighbourhood dmin0 opts_peaks ev_peaks 1 kp
     = kp[0 := kp ! 0 @ [peak_a, peak_b]]"
  "Find_Extremum_Threading Check_Maximum_Neighbourhood dmin0 opts_peaks ev_peaks 2 kp
     = kp[1 := kp ! 1 @ [peak_c]]"
  by (simp_all add: Find_Extremum_Threading_eq dims_peaks upto_small extrema_peaks
      new_point_peaks del: filter.simps)

lemma candidates_peaks:
  "find_candidates Check_Maximum_Neighbourhood dmin0 opts_peaks ev_peaks =
     [[peak_a, peak_b], [peak_c]]"
proof -
  have "[1 ..< length ev_peaks - 1] = [1, 2]"
    by (simp add: length_ev_peaks upt_rec)
  then show ?thesis
    by (simp add: find_candidates_def Find_Extremum_peaks)
qed

lemma merge_peaks:
  "merge_levels ev_peaks [[peak_a, peak_b], [peak_c]] []
     = [peak_c, peak_b]"
  by (simp add: merge_levels_fold level_order_def merge_candidate_spec dedup_spec_def
      in_conflict_def dist2_def peak_def peak_a_def peak_b_def peak_c_def refined_b_def refined_c_def scalars_peaks upt_rec)

lemma refine_peaks:
  "refine_all solve_LU opts_peaks ev_peaks (0, 0, 0) [peak_c, peak_b] = [refined_c, refined_b]"
  by (simp add: refine_spec_def peak_def peak_a_def peak_b_def peak_c_def refined_b_def
      refined_c_def c_int_def central_gradient_def central_hessian_def
      response_volume_def Ldet_peaks mat_of_def zeros_def solve_LU_def det3_def dims_peaks Let_def)

lemma dims_flat: "img_width opts_flat - 2 = 1" "img_height opts_flat - 2 = 1"
  by (simp_all add: opts_flat_def)

lemma accepted_flat: "accepted Check_Maximum_Neighbourhood dmin0 opts_flat ev_flat 1 1 1"
  using ext_flat by (simp add: is_extremum_at_accepted)

lemma upto_16: "[1 .. 6] = [1, 2, 3, 4, 5, 6::int]"
  by (simp add: upto.simps)

lemma Allocate_stale:
  "Allocate_Memory_Evolution range_arith opts_stale =
     [new_level range_arith opts_stale 0 0, new_level range_arith opts_stale 1 0,
      new_level range_arith opts_stale 2 0]"
  by (simp add: Allocate_Memory_Evolution_def opts_stale_def upto_small)

lemma length_ev_stale: "length ev_stale = 3"
  by (simp add: ev_stale_def Allocate_stale with_Ldet_def)

lemma levels_stale:
  "level_at ev_stale 0 = (new_level range_arith opts_stale 0 0)\<lparr>Ldet := zeros 3 8\<rparr>"
  "level_at ev_stale 1 = (new_level range_arith opts_stale 1 0)
     \<lparr>Ldet := mat_of 3 8 (\<lambda>i j. if 5 \<le> j \<and> j \<le> 7 then 1
                        else if i = 0 \<and> j = 4 then 2
                        else if i = 1 \<and> j = 1 then 3 / 2
                        else if i = 1 \<and> j = 2 then 1
                        else 0)\<rparr>"
  "level_at ev_stale 2 = (new_level range_arith opts_stale 2 0)
     \<lparr>Ldet := mat_of 3 8 (\<lambda>i j. if i = 1 \<and> j = 1 then 1 else 0)\<rparr>"
  by (simp_all add: ev_stale_def Allocate_stale with_Ldet_def level_at_def)

lemma Ldet_stale:
  "Ldet (level_at ev_stale 0) = zeros 3 8"
  "Ldet (level_at ev_stale 1) = mat_of 3 8 (\<lambda>i j. if 5 \<le> j \<and> j \<le> 7 then 1
                        else if i = 0 \<and> j = 4 then 2
                        else if i = 1 \<and> j = 1 then 3 / 2
                        else if i = 1 \<and> j = 2 then 1
                        else 0)"
  "Ldet (level_at ev_stale 2) = mat_of 3 8 (\<lambda>i j. if i = 1 \<and> j = 1 then 1 else 0)"
  by (simp_all add: levels_stale)

lemma scalars_stale:
  "sigma_size (level_at ev_stale 1) = 3" "esigma (level_at ev_stale 1) = Fin 3.2"
  "octave (level_at ev_stale 1) = 1" "sublevel (level_at ev_stale 1) = 0"
  by (simp_all add: levels_stale level_scalars opts_stale_def fRound_of_def fRound_def c_int_def
      float_overflow_def)

lemma dims_stale: "img_width opts_stale - 2 = 6" "img_height opts_stale - 2 = 1"
  "dthreshold opts_stale = 0.001" "nsublevels opts_stale = 1" "soffset opts_stale = 1.6"
  by (simp_all add: opts_stale_def)

lemma new_point_stale:
  "new_point ev_stale 1 1 1 = stale_a"
  "new_point ev_stale 1 1 6 = stale_b"
  by (simp_all add: new_point_def peak_def stale_a_def stale_b_def scalars_stale Ldet_stale
      mat_of_def)

lemma extrema_stale:
  "filter (is_extremum_at Check_Maximum_Neighbourhood dmin0 opts_stale ev_stale 1 1)
     [1, 2, 3, 4, 5, 6] = [1, 6]"
  by (simp add: is_extremum_at_def Ldet_stale dims_stale mat_of_def zeros_def dmin0_def
      Check_Maximum_Neighbourhood_def upto.simps Let_def)

lemma Find_Extremum_stale:
  "Find_Extremum_Threading Check_Maximum_Neighbourhood dmin0 opts_stale ev_stale 1 kp
     = kp[0 := kp ! 0 @ [stale_a, stale_b]]"
  by (simp add: Find_Extremum_Threading_eq dims_stale upto_small upto_16 extrema_stale
      new_point_stale del: filter.simps)

lemma candidates_stale:
  "find_candidates Check_Maximum_Neighbourhood dmin0 opts_stale ev_stale = [[stale_a, stale_b]]"
proof -
  have "[1 ..< length ev_stale - 1] = [1]"
    by (simp add: length_ev_stale upt_rec)
  then show ?thesis
    by (simp add: find_candidates_def Find_Extremum_stale)
qed

lemma merge_stale:
  "merge_levels ev_stale [[stale_a, stale_b]] [] = [stale_a, stale_b]"
  by (simp add: merge_levels_fold level_order_def merge_candidate_spec dedup_spec_def
      in_conflict_def dist2_def peak_def stale_a_def stale_b_def scalars_stale upt_rec)

lemma system_stale_a:
  "subpixel_system ev_stale stale_a = (((- 2, 0, 0), (0, - 3, 0), (0, 0, - 2)), (- (1 / 2), 0, - (1 / 2)))"
  by (simp add: subpixel_system_def stale_a_def peak_def c_int_def Ldet_stale mat_of_def zeros_def
      Let_def)

lemma system_stale_b:
  "subpixel_system ev_stale stale_b = (((0, 0, 0), (0, 0, 0), (0, 0, - 2)), (0, 0, 0))"
  by (simp add: subpixel_system_def stale_b_def peak_def c_int_def Ldet_stale mat_of_def zeros_def
      Let_def)

lemma refine_point_stale:
  "refine_point solve_LU opts_stale ev_stale (0, 0, 0) stale_a = ((1 / 4, 0, 1 / 4), Some moved_a)"
  "refine_point solve_LU opts_stale ev_stale (1 / 4, 0, 1 / 4) stale_b
     = ((1 / 4, 0, 1 / 4), Some moved_b)"
  "refine_point solve_LU opts_stale ev_stale (0, 0, 0) stale_b = ((0, 0, 0), Some alone_b)"
  by (simp_all add: refine_point_def system_stale_a system_stale_b solve_LU_def det3_def Let_def
      dims_stale)
     (simp_all add: stale_a_def stale_b_def peak_def moved_a_def moved_b_def moved_def alone_b_def)

lemma refine_stale:
  "refine_all solve_LU opts_stale ev_stale (0, 0, 0) [stale_a, stale_b] = [moved_a, moved_b]"
  "refine_all solve_LU opts_stale ev_stale (0, 0, 0) [stale_b] = [alone_b]"
  by (simp_all add: refine_all_Cons refine_point_stale del: refine_all.simps(2))

lemma Feature_Detection_stale:
  "Feature_Detection Check_Maximum_Neighbourhood dmin0 solve_LU opts_stale ev_stale []
     = Some [moved_a, moved_b]"
proof -
  have "ev_stale \<noteq> []" using length_ev_stale by auto
  then show ?thesis
    by (simp add: Feature_Detection_def Determinant_Hessian_Parallel_def candidates_stale
      merge_stale Do_Subpixel_Refinement_all refine_stale del: refine_all.simps)
qed



section \<open>The claims on the concrete inputs\<close>



theorem extremum_acceptance_witness:
  "Find_Extremum_Threading Check_Maximum_Neighbourhood dmin0 opts_flat ev_flat 1 [[]]
     = [[new_point ev_flat 1 1 1]]"
  using extremum_acceptance [of Check_Maximum_Neighbourhood dmin0 opts_flat ev_flat 1 "[[]]"]
  by (simp add: dims_flat upto_small accepted_flat)

text \<open>
  Claim C1 as stated fails: on the plateau the centre pixel of the middle level is accepted
  although its response equals, and so is not strictly greater than, its left neighbour.
\<close>

theorem left_neighbour_not_strict:
  "Find_Extremum_Threading Check_Maximum_Neighbourhood dmin0 opts_flat ev_flat 1 [[]]
     = [[new_point ev_flat 1 1 1]]
   \<and> \<not> elem (Ldet (level_at ev_flat 1)) 1 1 > elem (Ldet (level_at ev_flat 1)) 1 (1 - 1)"
  by (simp add: Find_Extremum_Threading_eq dims_flat upto_small ext_flat ev_flat_levels mat_of_def)

theorem cross_level_dedup_witness:
  "merge_levels ev_peaks [[peak_a, peak_b], [peak_c]] []
     = [peak_c, peak_b]"
  using cross_level_dedup [of ev_peaks "[[peak_a, peak_b], [peak_c]]" "[]"]
  by (simp add: level_order_def dedup_spec_def in_conflict_def dist2_def peak_def peak_a_def peak_b_def peak_c_def refined_b_def refined_c_def scalars_peaks
      upt_rec)

text \<open>
  Claim C3 fails on the code when the system of a keypoint is singular. On \<open>ev_stale\<close> the
  detector finds the peak (column 1) and the centre of the plateau (column 6). The system of
  the peak is regular, with the solution \<open>\<delta> = (1/4, 0, 1/4)\<close>. The system of the plateau
  is singular: the solver fails, \<^verbatim>\<open>dst\<close> still holds the \<open>\<delta>\<close> of the peak, and the plateau
  keypoint is accepted and moved by it to column \<open>25/4\<close>, although this \<open>\<delta>\<close> does not solve
  \<open>H \<cdot> \<delta> = - g\<close> at the plateau. Refined alone, the same keypoint stays at column 6.
\<close>

theorem stale_delta_reused:
  "Feature_Detection Check_Maximum_Neighbourhood dmin0 solve_LU opts_stale ev_stale []
     = Some [moved_a, moved_b]
   \<and> pt_x moved_b = 25 / 4
   \<and> det3 (fst (subpixel_system ev_stale stale_b)) = 0
   \<and> mat3_apply (fst (subpixel_system ev_stale stale_b)) (1 / 4, 0, 1 / 4)
       \<noteq> snd (subpixel_system ev_stale stale_b)
   \<and> Do_Subpixel_Refinement solve_LU opts_stale ev_stale [stale_b] = [alone_b]
   \<and> pt_x alone_b = 6"
  by (simp add: Feature_Detection_stale Do_Subpixel_Refinement_all refine_stale system_stale_b
      det3_def mat3_apply_def del: refine_all.simps)
     (simp add: moved_b_def moved_def alone_b_def peak_def)

lemma Feature_Detection_peaks:
  "Feature_Detection Check_Maximum_Neighbourhood dmin0 solve_LU opts_peaks ev_peaks []
     = Some [refined_c, refined_b]"
proof -
  have "ev_peaks \<noteq> []" using length_ev_peaks by auto
  then show ?thesis
    by (simp add: Feature_Detection_def Determinant_Hessian_Parallel_def candidates_peaks
      merge_peaks Do_Subpixel_Refinement_all refine_peaks del: refine_all.simps)
qed

text \<open>
  Claim C4. Every candidate emitted by the extremum detection sits on a response that exceeds
  \<open>dthreshold\<close> and is at least the minimum threshold, and its \<open>response\<close> field is the absolute
  value of that response; hence no keypoint returned by \<open>Feature_Detection\<close> (run on an empty
  vector) has a response below \<open>dthreshold\<close> or below the minimum threshold.
\<close>

theorem detector_thresholds:
  assumes "Feature_Detection cmn dmin solve opt ev [] = Some out"
  shows "(\<forall>ks \<in> set (find_candidates cmn dmin opt ev). \<forall>k \<in> set ks.
            elem (Ldet (level_at ev (class_id k))) (c_int (pt_y k)) (c_int (pt_x k)) > dthreshold opt
          \<and> elem (Ldet (level_at ev (class_id k))) (c_int (pt_y k)) (c_int (pt_x k)) \<ge> dmin
          \<and> response k
              = \<bar>elem (Ldet (level_at ev (class_id k))) (c_int (pt_y k)) (c_int (pt_x k))\<bar>)
       \<and> (\<forall>k \<in> set out. \<not> response k < dthreshold opt \<and> \<not> response k < dmin)"
proof -
  have cand: "\<forall>ks \<in> set (find_candidates cmn dmin opt ev). \<forall>k \<in> set ks.
            elem (Ldet (level_at ev (class_id k))) (c_int (pt_y k)) (c_int (pt_x k)) > dthreshold opt
          \<and> elem (Ldet (level_at ev (class_id k))) (c_int (pt_y k)) (c_int (pt_x k)) \<ge> dmin
          \<and> response k
              = \<bar>elem (Ldet (level_at ev (class_id k))) (c_int (pt_y k)) (c_int (pt_x k))\<bar>"
  proof (intro ballI)
    fix ks k
    assume "ks \<in> set (find_candidates cmn dmin opt ev)" "k \<in> set ks"
    then have "emitted cmn dmin opt ev k"
      using find_candidates_emitted by blast
    then show "elem (Ldet (level_at ev (class_id k))) (c_int (pt_y k)) (c_int (pt_x k)) > dthreshold opt
          \<and> elem (Ldet (level_at ev (class_id k))) (c_int (pt_y k)) (c_int (pt_x k)) \<ge> dmin
          \<and> response k
              = \<bar>elem (Ldet (level_at ev (class_id k))) (c_int (pt_y k)) (c_int (pt_x k))\<bar>"
      by (rule emitted_thresholds)
  qed
  let ?R = "\<lambda>k. response k > dthreshold opt \<and> response k \<ge> dmin"
  have cands: "\<forall>ks \<in> set (find_candidates cmn dmin opt ev). \<forall>k \<in> set ks. ?R k"
    using cand by fastforce
  have merged: "\<forall>k \<in> set (merge_levels ev (find_candidates cmn dmin opt ev) []). ?R k"
    by (rule merge_levels_preserves [OF cands]) simp
  from assms have out: "out = Do_Subpixel_Refinement solve opt ev
      (merge_levels ev (find_candidates cmn dmin opt ev) [])"
    by (auto simp: Feature_Detection_def Determinant_Hessian_Parallel_def split: if_splits)
  have ret: "\<forall>k \<in> set out. \<not> response k < dthreshold opt \<and> \<not> response k < dmin"
  proof (rule ballI)
    fix k'
    assume k': "k' \<in> set out"
    obtain k where "k \<in> set (merge_levels ev (find_candidates cmn dmin opt ev) [])"
        and "response k' = response k"
      using Do_Subpixel_Refinement_response k' out by blast
    then have "?R k'" using merged by simp
    then show "\<not> response k' < dthreshold opt \<and> \<not> response k' < dmin" by simp
  qed
  from cand ret show ?thesis by (rule conjI)
qed

theorem detector_thresholds_witness:
  "Feature_Detection Check_Maximum_Neighbourhood dmin0 solve_LU opts_peaks ev_peaks []
     = Some [refined_c, refined_b]
   \<and> \<not> response refined_c < dthreshold opts_peaks
   \<and> \<not> response refined_b < dmin0"
  using detector_thresholds [OF Feature_Detection_peaks] Feature_Detection_peaks by simp

text \<open>
  Claim C2 as stated fails: on the four-level input the two keypoints returned by
  \<open>Feature_Detection\<close> are on adjacent levels and two pixels apart, although \<open>sigma_size\<close> of
  the lower level is 3. (The level-2 candidate replaced, in place, the first accepted keypoint
  it was in conflict with, and was never compared with the second.)
\<close>

theorem dedup_invariant_counterexample:
  "Feature_Detection Check_Maximum_Neighbourhood dmin0 solve_LU opts_peaks ev_peaks []
     = Some [refined_c, refined_b]
   \<and> \<bar>class_id refined_c - class_id refined_b\<bar> \<le> 1
   \<and> \<not> dist2 refined_c refined_b
        > (real_of_int (sigma_size (level_at ev_peaks
             (min (class_id refined_c) (class_id refined_b)))))\<^sup>2"
  by (simp add: Feature_Detection_peaks) (simp add: peak_def peak_a_def peak_b_def peak_c_def refined_b_def refined_c_def dist2_def scalars_peaks)

text \<open>
  Claim C2, as amended. When the selection appends a candidate (the accepted vector grows),
  every keypoint accepted before it whose \<open>class_id\<close> is within one of the candidate's level
  lies at a squared distance of at least \<open>sigma_size[level]\<^sup>2\<close> from it.
\<close>

theorem dedup_append_invariant:
  assumes "length (merge_candidate ev level cand kpts) = Suc (length kpts)"
  shows "merge_candidate ev level cand kpts = kpts @ [cand]
       \<and> (\<forall>k \<in> set kpts. \<bar>class_id k - level\<bar> \<le> 1 \<longrightarrow>
            dist2 cand k \<ge> (real_of_int (sigma_size (level_at ev level)))\<^sup>2)"
  using assms dedup_spec_cases [of ev level cand kpts]
  by (auto simp: merge_candidate_spec in_conflict_def)

theorem dedup_append_invariant_witness:
  "length (merge_candidate ev_peaks 1 peak_b [peak_a]) = Suc (length [peak_a])
   \<and> merge_candidate ev_peaks 1 peak_b [peak_a]
       = [peak_a] @ [peak_b]
   \<and> dist2 peak_b peak_a \<ge> (real_of_int (sigma_size (level_at ev_peaks 1)))\<^sup>2"
proof -
  have len: "length (merge_candidate ev_peaks 1 peak_b [peak_a])
      = Suc (length [peak_a])"
    by (simp add: merge_candidate_spec dedup_spec_def in_conflict_def dist2_def peak_def peak_a_def peak_b_def peak_c_def refined_b_def refined_c_def
        scalars_peaks)
  show ?thesis
    using dedup_append_invariant [OF len] len by (simp add: peak_def peak_a_def peak_b_def peak_c_def refined_b_def refined_c_def)
qed

lemma gauge_on_gauge_level: "gauge (level_at ev_gauge (class_id kpt_mid)) p = (1, - 1)"
proof -
  have L: "level_at ev_gauge (class_id kpt_mid) = gauge_level"
    by (simp add: level_at_def ev_gauge_def kpt_mid_def)
  have "interpolate (Lx gauge_level) p = 1" "interpolate (Ly gauge_level) p = 0"
    "interpolate (Lxx gauge_level) p = 1" "interpolate (Lxy gauge_level) p = 0"
    "interpolate (Lyy gauge_level) p = - 1"
    by (rule interpolate_const, simp add: gauge_level_def new_level_def mat_of_def zeros_def Let_def)+
  then show ?thesis by (simp add: L gauge_def)
qed

theorem gsurf128_bucketing_witness:
  "gsurf128_cell opts_flat ev_gauge kpt_mid (- 10) (- 10)
     = \<lparr>dxp = - 25, dxn = 0, mdxp = 25, mdxn = 0, dyp = 0, dyn = 25, mdyp = 0, mdyn = 25\<rparr>"
proof -
  have "[- 10 .. - 10 + sample_step - 1] = [- 10, - 9, - 8, - 7, - 6]"
    by (simp add: sample_step_def upto.simps)
  then have "gsurf128_samples opts_flat ev_gauge kpt_mid (- 10) (- 10) = replicate 25 (1, - 1)"
    by (simp add: gsurf128_samples_def gauge_on_gauge_level numeral_eq_Suc)
  then show ?thesis
    using gsurf128_bucketing [of opts_flat ev_gauge kpt_mid "- 10" "- 10"]
    by (simp add: swapped_buckets_def sum_list_replicate)
qed

theorem zero_length_descriptor_witness:
  "Get_SURF_Upright_Descriptor_64 clip_on opts_flat ev_flat (new_point ev_flat 1 1 1)
     = replicate 64 NaN
   \<and> Get_SURF_Descriptor_64 clip_on opts_flat ev_flat (new_point ev_flat 1 1 1)
     = replicate 64 NaN
   \<and> Get_SURF_Upright_Descriptor_128 clip_on opts_flat ev_flat (new_point ev_flat 1 1 1)
     = replicate 128 NaN
   \<and> Get_SURF_Descriptor_128 clip_on opts_flat ev_flat (new_point ev_flat 1 1 1)
     = replicate 128 NaN
   \<and> Get_MSURF_Upright_Descriptor_64 clip_on opts_flat ev_flat (new_point ev_flat 1 1 1)
     = replicate 64 NaN
   \<and> Get_MSURF_Descriptor_64 clip_on opts_flat ev_flat (new_point ev_flat 1 1 1)
     = replicate 64 NaN
   \<and> Get_MSURF_Upright_Descriptor_128 clip_on opts_flat ev_flat (new_point ev_flat 1 1 1)
     = replicate 128 NaN
   \<and> Get_MSURF_Descriptor_128 clip_on opts_flat ev_flat (new_point ev_flat 1 1 1)
     = replicate 128 NaN
   \<and> Get_GSURF_Descriptor_64 clip_on opts_flat ev_flat (new_point ev_flat 1 1 1)
     = replicate 64 NaN
   \<and> Get_GSURF_Upright_Descriptor_64 clip_on opts_flat ev_flat (new_point ev_flat 1 1 1)
     = replicate 64 NaN
   \<and> Get_GSURF_Descriptor_128 clip_on opts_flat ev_flat (new_point ev_flat 1 1 1)
     = replicate 128 NaN"
proof -
  have L: "level_at ev_flat (class_id (new_point ev_flat 1 1 1))
      = (new_level range_arith opts_flat 1 0)\<lparr>Ldet := mat_of 3 3 (\<lambda>i j. 1)\<rparr>"
    by (simp add: new_point_def ev_flat_levels)
  have x: "\<forall>i j. elem (Lx (level_at ev_flat (class_id (new_point ev_flat 1 1 1)))) i j = 0"
    and y: "\<forall>i j. elem (Ly (level_at ev_flat (class_id (new_point ev_flat 1 1 1)))) i j = 0"
    by (simp_all add: L new_level_def zeros_def Let_def)
  show ?thesis
    by (rule zero_length_descriptor [OF x y])
qed

end
